theory Spec2Isabelle
  imports Main "HOL-Library.AList"
begin

section \<open>Python values used by the executor\<close>

text \<open>
  The exceptions the modelled code can raise. \<open>ValueError\<close> and \<open>Exception\<close> carry
  their message, which is what \<open>print(e)\<close> shows.
\<close>

datatype error =
    ValueError string
  | KeyError
  | SelfDependencyError
  | CycleDetectedError
  | Exception string

fun message :: "error \<Rightarrow> string" where
  "message (ValueError m) = m"
| "message KeyError = ''KeyError''"
| "message SelfDependencyError = ''SelfDependencyError''"
| "message CycleDetectedError = ''CycleDetectedError''"
| "message (Exception m) = m"

text \<open>
  The double quote and the newline, which the executor writes into its files, and the
  backquote of its message.
\<close>

definition dq :: string where
  "dq = [CHR 0x22]"

definition nl :: string where
  "nl = [CHR 0x0A]"

definition bq :: string where
  "bq = [CHR 0x60]"

text \<open>Python's \<open>str\<close> on integers: decimal digits, most significant first.\<close>

definition digit_char :: "nat \<Rightarrow> char" where
  "digit_char d = ''0123456789'' ! (d mod 10)"

function str_nat :: "nat \<Rightarrow> string" where
  "str_nat n = (if n < 10 then [digit_char n] else str_nat (n div 10) @ [digit_char (n mod 10)])"
  by pat_completeness auto
termination
  by (relation "measure id") auto

declare str_nat.simps [simp del]

definition str :: "int \<Rightarrow> string" where
  "str i = (if i < 0 then ''-'' @ str_nat (nat (- i)) else str_nat (nat i))"

section \<open>Nodes and the workflow graph\<close>

text \<open>
  Modelled from the spec: the class \<open>Node\<close> (module awflow.node) is not among the
  sources; the executor and the decorators only use its fields. Following section 3 of the
  specification a Node has an identity, a name, a mapping of attributes that keeps the
  insertion order of its keys, a replica count (\<open>node.tasks\<close>) and its dependencies.

  \<^item> \<open>address\<close> is the value of Python's \<open>id(node)\<close>, which names the task file.
  \<^item> \<open>node_identifier\<close> is \<open>node.identifier\<close>, the identity derived from the work definition.
  \<^item> \<open>attributes\<close> is the dictionary \<open>node.attributes\<close> as an association list in
    insertion order.
  \<^item> \<open>dependencies\<close> holds, for every Node that \<open>node.dependencies\<close> refers to, the
    identifier of that Node: a reference is represented by the identity of its target, so
    \<open>dependency.identifier\<close> for \<open>dependency in node.dependencies\<close> ranges over this
    list.
\<close>

record node =
  address :: nat
  node_identifier :: nat
  name :: string
  attributes :: "(string \<times> string) list"
  tasks :: int
  dependencies :: "nat list"

text \<open>
  Modelled from the spec: \<open>node[key] = value\<close> and \<open>node[key]\<close> act on the attribute
  mapping. Assigning to a key that is present replaces its value in place, assigning to a
  new key appends it (the behaviour of a Python dictionary); reading a key that is absent
  raises \<open>KeyError\<close>.
\<close>

definition setitem :: "node \<Rightarrow> string \<Rightarrow> string \<Rightarrow> node" where
  "setitem n key v = n\<lparr>attributes := AList.update key v (attributes n)\<rparr>"

definition getitem :: "node \<Rightarrow> string \<Rightarrow> error + string" where
  "getitem n key = (case map_of (attributes n) key of None \<Rightarrow> Inl KeyError | Some v \<Rightarrow> Inr v)"

text \<open>
  The workflow graph, \<open>DirectedAcyclicWorkflowGraph\<close>: \<open>workflow.nodes\<close> are its
  registered Nodes in registration order.
\<close>

record DAWG =
  nodes :: "node list"

section \<open>The state the executor runs in\<close>

text \<open>
  The file system holds the files by path, with their contents, and the directories.
\<close>

record filesystem =
  files :: "(string \<times> string) list"
  dirs :: "string list"

text \<open>
  Every call that \<open>execute\<close> makes is recorded in \<open>calls\<close>, oldest first, so that the
  order of the calls can be stated.
\<close>

datatype call =
    Makedirs string
  | Mkdtemp string
  | Program
  | ApplyDefaults
  | GeneratePostconditions string
  | Prune
  | GenerateExecutables string
  | GenerateMetadata string
  | PrepareSubmission string
  | Submit string
  | Rmtree string

text \<open>
  The world: the workflow being executed, the file system, the lines printed so far, the
  snapshot of postcondition results with the log of the evaluations that produced it, and
  the record of calls.
\<close>

record world =
  workflow :: DAWG
  disk :: filesystem
  stdout :: "string list"
  snapshot :: "(nat \<times> bool) list"
  evaluated :: "nat list"
  calls :: "call list"

datatype outcome = Returned world | Raised error world

text \<open>
  The collaborators of the executor that are not among the sources: the methods
  \<open>program\<close> and \<open>prune\<close> of the graph, the plugin hooks, the helpers of
  awflow.utils.executor, and the operating system (\<open>os.path.abspath\<close>, the name chosen by
  \<open>tempfile.mkdtemp\<close>, \<open>os.system\<close>). They are parameters of the model.
\<close>

record collaborators =
  program :: "DAWG \<Rightarrow> error + node list"
  prune :: "world \<Rightarrow> outcome"
  apply_defaults :: "world \<Rightarrow> outcome"
  generate_postconditions :: "string \<Rightarrow> world \<Rightarrow> outcome"
  generate_executables :: "string \<Rightarrow> world \<Rightarrow> outcome"
  generate_metadata :: "string \<Rightarrow> world \<Rightarrow> outcome"
  generate_before :: "node \<Rightarrow> string list"
  generate_after :: "node \<Rightarrow> string list"
  executable_name :: "node \<Rightarrow> string"
  abspath :: "string \<Rightarrow> string"
  mkdtemp_name :: "string \<Rightarrow> filesystem \<Rightarrow> string"
  os_system :: "string \<Rightarrow> world \<Rightarrow> int \<times> world"

section \<open>The Slurm executor\<close>

subsection \<open>add_default_attributes\<close>

text \<open>The body of the loop of \<open>add_default_attributes\<close>, for one node.\<close>

definition default_attributes :: "string \<Rightarrow> node \<Rightarrow> node" where
  "default_attributes dir node0 =
     (let node1 = setitem node0 ''--export='' ''ALL'';
          node2 = setitem node1 ''--parsable'' '''';
          node3 = setitem node2 ''--requeue'' '''';
          node4 = setitem node3 ''--job-name='' (dq @ name node3 @ dq);
          fmt = dq @ dir @ ''/logs/'' @ name node4;
          fmt1 = (if tasks node4 > 1 then fmt @ ''-%A_%a.log'' else fmt @ ''-%j.log'')
      in setitem node4 ''--output='' (fmt1 @ dq))"

definition add_default_attributes :: "DAWG \<Rightarrow> string \<Rightarrow> DAWG" where
  "add_default_attributes wflow dir = wflow\<lparr>nodes := map (default_attributes dir) (nodes wflow)\<rparr>"

subsection \<open>generate_task_files\<close>

text \<open>
  The loop over \<open>node.attributes\<close>: a key that does not start with \<open>--\<close> is skipped
  (\<open>continue\<close>), any other key is looked up and gives one line.
\<close>

fun attribute_lines :: "node \<Rightarrow> string list \<Rightarrow> string list \<Rightarrow> error + string list" where
  "attribute_lines node [] lines = Inr lines"
| "attribute_lines node (key # keys) lines =
     (if take 2 key \<noteq> ''--'' then attribute_lines node keys lines
      else (case getitem node key of
              Inl e \<Rightarrow> Inl e
            | Inr v \<Rightarrow> attribute_lines node keys (lines @ [''#SBATCH '' @ key @ v])))"

definition node_task_filename :: "node \<Rightarrow> string" where
  "node_task_filename node = str (int (address node)) @ ''.sbatch''"

text \<open>The lines of the task file of one node, as the body of the loop builds them.\<close>

definition task_file_lines :: "collaborators \<Rightarrow> string \<Rightarrow> node \<Rightarrow> error + string list" where
  "task_file_lines E dir node =
     (case attribute_lines node (map fst (attributes node)) [''#!/usr/bin/env bash''] of
        Inl e \<Rightarrow> Inl e
      | Inr lines0 \<Rightarrow>
          (let (lines1, command_suffix) =
                 (if tasks node > 1
                  then (lines0 @ [''#SBATCH --array 0-'' @ str (tasks node - 1)],
                        '' $SLURM_ARRAY_TASK_ID'')
                  else (lines0, ''''));
               absolute_path = abspath E (dir @ ''/'' @ executable_name E node);
               commands = generate_before E node
                 @ [''python -u -m awflow.bin.processor '' @ absolute_path @ command_suffix]
                 @ generate_after E node
           in Inr (lines1 @ commands)))"

text \<open>Writing a file line by line: \<open>f.write(line + '\n')\<close> for every line.\<close>

definition write_lines :: "string list \<Rightarrow> string" where
  "write_lines lines = concat (map (\<lambda>line. line @ nl) lines)"

definition write_file :: "string \<Rightarrow> string \<Rightarrow> filesystem \<Rightarrow> filesystem" where
  "write_file path content fs = fs\<lparr>files := AList.update path content (files fs)\<rparr>"

fun generate_task_files_loop ::
  "collaborators \<Rightarrow> string \<Rightarrow> node list \<Rightarrow> filesystem \<Rightarrow> error + filesystem" where
  "generate_task_files_loop E dir [] fs = Inr fs"
| "generate_task_files_loop E dir (node # rest) fs =
     (case task_file_lines E dir node of
        Inl e \<Rightarrow> Inl e
      | Inr lines \<Rightarrow>
          generate_task_files_loop E dir rest
            (write_file (dir @ ''/'' @ node_task_filename node) (write_lines lines) fs))"

definition generate_task_files ::
  "collaborators \<Rightarrow> DAWG \<Rightarrow> string \<Rightarrow> filesystem \<Rightarrow> error + filesystem" where
  "generate_task_files E wflow dir fs = generate_task_files_loop E dir (nodes wflow) fs"

subsection \<open>generate_submission_script\<close>

text \<open>
  The inner loop over \<open>task.dependencies\<close>: each dependency is looked up in the
  dictionary \<open>tasks\<close> (a missing key raises \<open>KeyError\<close>) and its index is appended to
  the flag.
\<close>

fun dependency_flag :: "(nat \<rightharpoonup> nat) \<Rightarrow> nat list \<Rightarrow> string \<Rightarrow> error + string" where
  "dependency_flag tasks_dict [] flag = Inr flag"
| "dependency_flag tasks_dict (dependency # rest) flag =
     (case tasks_dict dependency of
        None \<Rightarrow> Inl KeyError
      | Some index \<Rightarrow> dependency_flag tasks_dict rest (flag @ '':$t'' @ str (int index)))"

text \<open>
  The variables of \<open>generate_submission_script\<close> that its loop changes: the list
  \<open>lines\<close>, the string \<open>job_identifiers\<close> and the dictionary \<open>tasks\<close>.
\<close>

record script_state =
  script_lines :: "string list"
  job_identifiers :: string
  tasks_dict :: "nat \<rightharpoonup> nat"

text \<open>
  The loop over \<open>enumerate(workflow.program())\<close>; \<open>task_index\<close> is the index of the
  first task of the list that is still to be processed.
\<close>

fun submission_loop :: "string \<Rightarrow> nat \<Rightarrow> node list \<Rightarrow> script_state \<Rightarrow> error + script_state" where
  "submission_loop dir task_index [] st = Inr st"
| "submission_loop dir task_index (task # rest) st =
     (let tasks1 = (tasks_dict st)(node_identifier task \<mapsto> task_index);
          line0 = ''t'' @ str (int task_index) @ ''=$(sbatch ''
      in case (if length (dependencies task) > 0
               then (case dependency_flag tasks1 (dependencies task) ''--dependency=afterok'' of
                       Inl e \<Rightarrow> Inl e
                     | Inr flag \<Rightarrow> Inr (line0 @ flag @ '' ''))
               else Inr line0) of
           Inl e \<Rightarrow> Inl e
         | Inr line1 \<Rightarrow>
             submission_loop dir (Suc task_index) rest
               \<lparr>script_lines = script_lines st @ [line1 @ dir @ ''/'' @ node_task_filename task @ '')''],
                job_identifiers = job_identifiers st @ ''$t'' @ str (int task_index) @ nl,
                tasks_dict = tasks1\<rparr>)"

text \<open>The state in which the loop starts.\<close>

definition script_start :: "string \<Rightarrow> script_state" where
  "script_start dir =
     \<lparr>script_lines = [''#!/usr/bin/env bash'', ''mkdir -p '' @ dir @ ''/logs''],
      job_identifiers = ''echo '' @ dq,
      tasks_dict = Map.empty\<rparr>"

definition generate_submission_script ::
  "collaborators \<Rightarrow> DAWG \<Rightarrow> string \<Rightarrow> filesystem \<Rightarrow> error + filesystem" where
  "generate_submission_script E wflow dir fs =
     (case program E wflow of
        Inl e \<Rightarrow> Inl e
      | Inr prog \<Rightarrow>
          (case submission_loop dir 0 prog (script_start dir) of
             Inl e \<Rightarrow> Inl e
           | Inr st \<Rightarrow>
               Inr (write_file (dir @ ''/pipeline'')
                      (write_lines (script_lines st)
                         @ job_identifiers st @ dq @ '' > '' @ dir @ ''/job_identifiers'')
                      fs)))"

subsection \<open>submit and prepare_submission\<close>

text \<open>
  \<open>print\<close> adds a line to the output. The operating system runs the command of
  \<open>os.system\<close> and gives its return code.
\<close>

definition print_line :: "string \<Rightarrow> world \<Rightarrow> world" where
  "print_line s w = w\<lparr>stdout := stdout w @ [s]\<rparr>"

definition submit :: "collaborators \<Rightarrow> string \<Rightarrow> world \<Rightarrow> outcome" where
  "submit E dir w =
     (let (return_code, w1) = os_system E (''bash '' @ dir @ ''/pipeline'') w
      in if return_code \<noteq> 0 then Raised (Exception ''Failed to submit pipeline.'') w1
         else Returned (print_line (''Pipeline submitted. Logfiles are stored at '' @ bq
                                      @ dir @ ''/logs'' @ bq) w1))"

definition prepare_submission :: "collaborators \<Rightarrow> string \<Rightarrow> world \<Rightarrow> outcome" where
  "prepare_submission E dir w =
     (let w1 = w\<lparr>workflow := add_default_attributes (workflow w) dir\<rparr>
      in case generate_task_files E (workflow w1) dir (disk w1) of
           Inl e \<Rightarrow> Raised e w1
         | Inr fs1 \<Rightarrow>
             (let w2 = w1\<lparr>disk := fs1\<rparr>
              in case generate_submission_script E (workflow w2) dir (disk w2) of
                   Inl e \<Rightarrow> Raised e w2
                 | Inr fs2 \<Rightarrow> Returned (w2\<lparr>disk := fs2\<rparr>)))"

subsection \<open>execute\<close>

text \<open>
  A path lies inside a directory when it starts with the directory and a slash.
  \<open>shutil.rmtree\<close> removes the directory and all that lies inside it;
  \<open>os.makedirs\<close> with \<open>exist_ok\<close> and \<open>tempfile.mkdtemp\<close> create a directory.
\<close>

definition inside :: "string \<Rightarrow> string \<Rightarrow> bool" where
  "inside d p = (take (Suc (length d)) p = d @ ''/'')"

definition rmtree :: "string \<Rightarrow> filesystem \<Rightarrow> filesystem" where
  "rmtree d fs =
     \<lparr>files = filter (\<lambda>(p, content). \<not> inside d p) (files fs),
      dirs = filter (\<lambda>p. p \<noteq> d \<and> \<not> inside d p) (dirs fs)\<rparr>"

definition mkdir :: "string \<Rightarrow> filesystem \<Rightarrow> filesystem" where
  "mkdir d fs = fs\<lparr>dirs := List.insert d (dirs fs)\<rparr>"

text \<open>
  Calling a collaborator adds the call to the record of calls, whether the collaborator
  returns or raises. The record is kept by the model of \<open>execute\<close>: whatever the
  collaborator does, the record after the call is the record before it with the call
  added.
\<close>

definition invoke :: "call \<Rightarrow> (world \<Rightarrow> outcome) \<Rightarrow> world \<Rightarrow> outcome" where
  "invoke c f w =
     (case f w of
        Returned w' \<Rightarrow> Returned (w'\<lparr>calls := calls w @ [c]\<rparr>)
      | Raised e w' \<Rightarrow> Raised e (w'\<lparr>calls := calls w @ [c]\<rparr>))"

text \<open>Sequencing: an exception ends the run.\<close>

fun and_then :: "outcome \<Rightarrow> (world \<Rightarrow> outcome) \<Rightarrow> outcome" where
  "and_then (Returned w) f = f w"
| "and_then (Raised e w) f = Raised e w"

fun world_of :: "outcome \<Rightarrow> world" where
  "world_of (Returned w) = w"
| "world_of (Raised e w) = w"

text \<open>
  The first two statements of \<open>execute\<close> create the base directory and the working
  directory in it; \<open>workdir\<close> is the value of the variable \<open>directory\<close>.
\<close>

definition create_directories :: "collaborators \<Rightarrow> string \<Rightarrow> world \<Rightarrow> world" where
  "create_directories E dir w =
     (let w1 = w\<lparr>disk := mkdir dir (disk w), calls := calls w @ [Makedirs dir]\<rparr>;
          directory = abspath E (mkdtemp_name E dir (disk w1))
      in w1\<lparr>disk := mkdir directory (disk w1), calls := calls w1 @ [Mkdtemp dir]\<rparr>)"

definition workdir :: "collaborators \<Rightarrow> string \<Rightarrow> world \<Rightarrow> string" where
  "workdir E dir w = abspath E (mkdtemp_name E dir (mkdir dir (disk w)))"

text \<open>
  The statements of \<open>execute\<close> up to \<open>workflow.prune()\<close>: the directories, the call of
  \<open>workflow.program()\<close> (whose result is not used, but which may raise), the defaults of
  the plugins, the postconditions, and the pruning.
\<close>

definition preparation :: "collaborators \<Rightarrow> string \<Rightarrow> world \<Rightarrow> outcome" where
  "preparation E dir w =
     (let directory = workdir E dir w;
          w2 = create_directories E dir w
      in and_then
           (invoke Program
              (\<lambda>w. case program E (workflow w) of Inl e \<Rightarrow> Raised e w | Inr prog \<Rightarrow> Returned w) w2)
           (\<lambda>w3. and_then (invoke ApplyDefaults (apply_defaults E) w3)
              (\<lambda>w4. and_then
                 (invoke (GeneratePostconditions directory) (generate_postconditions E directory) w4)
                 (\<lambda>w5. invoke Prune (prune E) w5))))"

text \<open>
  The statements of the branch \<open>len(workflow.nodes) > 0\<close> before the submission: the
  executables, the metadata, and \<open>prepare_submission\<close>.
\<close>

definition staging :: "collaborators \<Rightarrow> string \<Rightarrow> world \<Rightarrow> outcome" where
  "staging E directory w =
     and_then (invoke (GenerateExecutables directory) (generate_executables E directory) w)
       (\<lambda>w7. and_then (invoke (GenerateMetadata directory) (generate_metadata E directory) w7)
          (\<lambda>w8. invoke (PrepareSubmission directory) (prepare_submission E directory) w8))"

text \<open>The call \<open>shutil.rmtree(directory)\<close>.\<close>

definition remove_directory :: "string \<Rightarrow> world \<Rightarrow> world" where
  "remove_directory directory w =
     w\<lparr>disk := rmtree directory (disk w), calls := calls w @ [Rmtree directory]\<rparr>"

text \<open>
  \<open>execute\<close>. The handler \<open>except Exception\<close> catches every exception of the model:
  all of them are subclasses of \<open>Exception\<close>.
\<close>

definition execute :: "collaborators \<Rightarrow> string \<Rightarrow> world \<Rightarrow> outcome" where
  "execute E dir w =
     (let directory = workdir E dir w
      in case preparation E dir w of
           Raised e w6 \<Rightarrow> Raised e w6
         | Returned w6 \<Rightarrow>
             if length (nodes (workflow w6)) > 0
             then (case staging E directory w6 of
                     Raised e w9 \<Rightarrow> Raised e w9
                   | Returned w9 \<Rightarrow>
                       (case invoke (Submit directory) (submit E directory) w9 of
                          Raised e w10 \<Rightarrow>
                            Returned (remove_directory directory (print_line (message e) w10))
                        | Returned w10 \<Rightarrow> Returned w10))
             else Returned (remove_directory directory w6))"

subsection \<open>Postconditions and pruning\<close>

text \<open>
  Modelled from the spec: \<open>generate_postconditions\<close> (module awflow.utils.executor) and
  the method \<open>prune\<close> of the graph are not among the sources. By section 4.2 all
  postconditions are evaluated first, into a snapshot, and the graph is then pruned in
  one pass from the snapshot: the Nodes whose postcondition holds are removed, and so are
  the dependency edges that point to them. A Node without a result in the snapshot is not
  satisfied (section 6). The postcondition of a Node is a predicate on the external state;
  every evaluation is logged in \<open>evaluated\<close>.
\<close>

fun evaluate_postconditions :: "(node \<Rightarrow> filesystem \<Rightarrow> bool) \<Rightarrow> node list \<Rightarrow> world \<Rightarrow> world" where
  "evaluate_postconditions postcondition [] w = w"
| "evaluate_postconditions postcondition (n # ns) w =
     evaluate_postconditions postcondition ns
       (w\<lparr>snapshot := AList.update (node_identifier n) (postcondition n (disk w)) (snapshot w),
          evaluated := evaluated w @ [node_identifier n]\<rparr>)"

definition snapshot_postconditions ::
  "(node \<Rightarrow> filesystem \<Rightarrow> bool) \<Rightarrow> string \<Rightarrow> world \<Rightarrow> outcome" where
  "snapshot_postconditions postcondition dir w =
     Returned (evaluate_postconditions postcondition (nodes (workflow w)) w)"

definition satisfied :: "world \<Rightarrow> nat \<Rightarrow> bool" where
  "satisfied w i = (map_of (snapshot w) i = Some True)"

definition prune_snapshot :: "world \<Rightarrow> outcome" where
  "prune_snapshot w =
     Returned (w\<lparr>workflow :=
       \<lparr>nodes = map (\<lambda>n. n\<lparr>dependencies := filter (\<lambda>d. \<not> satisfied w d) (dependencies n)\<rparr>)
                    (filter (\<lambda>n. \<not> satisfied w (node_identifier n)) (nodes (workflow w)))\<rparr>\<rparr>)"

section \<open>The decorators\<close>

text \<open>
  A task definition, the Python function a decorator is applied to: \<open>fn_id\<close> is its
  identity (\<open>id(f)\<close>) and \<open>fn_name\<close> its name. Python compares functions by identity,
  so \<open>f == dependency\<close> is the comparison of the two \<open>fn_id\<close>.
\<close>

record callable =
  fn_id :: nat
  fn_name :: string

text \<open>
  The argument \<open>dependencies\<close> of the decorator: a list of task definitions, or a single
  one. Modelled from the spec: \<open>is_iterable\<close> (module awflow.utils.generic) is not among
  the sources; it tells the list from the single instance.
\<close>

datatype dependencies_arg = Single (the_single: callable) | Many (the_list: "callable list")

fun is_iterable :: "dependencies_arg \<Rightarrow> bool" where
  "is_iterable (Single d) = False"
| "is_iterable (Many ds) = True"

text \<open>The task definitions that a call of the decorator declares as dependencies.\<close>

fun declared :: "dependencies_arg \<Rightarrow> callable list" where
  "declared (Single d) = [d]"
| "declared (Many ds) = ds"

text \<open>The Node registered in the graph under an identifier, if there is one.\<close>

definition find_node :: "nat \<Rightarrow> DAWG \<Rightarrow> node option" where
  "find_node i g = find (\<lambda>n. node_identifier n = i) (nodes g)"

text \<open>An address that no Node of the graph has: where a new Node object is allocated.\<close>

definition fresh_address :: "DAWG \<Rightarrow> nat" where
  "fresh_address g = Suc (fold max (map address (nodes g)) 0)"

text \<open>
  Modelled from the spec: \<open>add_and_get_node\<close> (module awflow.utils.dawg) is not among the
  sources. It is \<open>get_or_create\<close> of section 4.1: it returns the Node registered for the
  task definition and creates it on the first reference, after the Nodes registered
  before. The identity of a Node is that of its task definition; a new Node has the name
  of the definition, no attributes, one task and no dependencies.
\<close>

definition new_node :: "callable \<Rightarrow> DAWG \<Rightarrow> node" where
  "new_node f g = \<lparr>address = fresh_address g, node_identifier = fn_id f, name = fn_name f,
     attributes = [], tasks = 1, dependencies = []\<rparr>"

definition add_and_get_node :: "callable \<Rightarrow> DAWG \<Rightarrow> node \<times> DAWG" where
  "add_and_get_node f g =
     (case find_node (fn_id f) g of
        Some n \<Rightarrow> (n, g)
      | None \<Rightarrow> (new_node f g, g\<lparr>nodes := nodes g @ [new_node f g]\<rparr>))"

text \<open>
  A Node object is shared by reference: changing it changes the Node that the graph
  holds under its identifier.
\<close>

definition update_node :: "nat \<Rightarrow> (node \<Rightarrow> node) \<Rightarrow> DAWG \<Rightarrow> DAWG" where
  "update_node i change g =
     g\<lparr>nodes := map (\<lambda>n. if node_identifier n = i then change n else n) (nodes g)\<rparr>"

text \<open>
  Modelled from the spec: \<open>Node.add_dependency\<close> is not among the sources. By section
  4.1 it adds the dependency to the set \<open>node.dependencies\<close> and fails with
  \<open>SelfDependencyError\<close> when the node is the dependency itself.
\<close>

definition add_dependency :: "nat \<Rightarrow> nat \<Rightarrow> DAWG \<Rightarrow> error + DAWG" where
  "add_dependency node_id dependency_id g =
     (if node_id = dependency_id then Inl SelfDependencyError
      else Inr (update_node node_id
                  (\<lambda>n. n\<lparr>dependencies :=
                      (if dependency_id \<in> set (dependencies n) then dependencies n
                       else dependencies n @ [dependency_id])\<rparr>) g))"

text \<open>
  The loop of \<open>dependency\<close> over the dependencies; \<open>node\<close> is the Node of \<open>f\<close>. It
  gives the exception that ended it, if any, and the graph it leaves.
\<close>

fun dependency_loop :: "callable \<Rightarrow> node \<Rightarrow> callable list \<Rightarrow> DAWG \<Rightarrow> error option \<times> DAWG" where
  "dependency_loop f node [] g = (None, g)"
| "dependency_loop f node (dependency # rest) g =
     (if fn_id f = fn_id dependency
      then (Some (ValueError ''A function cannot depend on itself.''), g)
      else (let (dependency_node, g1) = add_and_get_node dependency g
            in case add_dependency (node_identifier node) (node_identifier dependency_node) g1 of
                 Inl e \<Rightarrow> (Some e, g1)
               | Inr g2 \<Rightarrow> dependency_loop f node rest g2))"

text \<open>
  The decorator \<open>dependency\<close>, applied to \<open>f\<close>: the value it returns, or the exception
  it raises, and the graph after the call.
\<close>

definition dependency :: "callable \<Rightarrow> dependencies_arg \<Rightarrow> DAWG \<Rightarrow> (error + callable) \<times> DAWG" where
  "dependency f deps g =
     (let ds = (if \<not> is_iterable deps then [the_single deps] else the_list deps);
          (node, g1) = add_and_get_node f g
      in case dependency_loop f node ds g1 of
           (Some e, g2) \<Rightarrow> (Inl e, g2)
         | (None, g2) \<Rightarrow> (Inr f, g2))"

text \<open>The decorator \<open>conda\<close>, applied to \<open>f\<close>.\<close>

definition conda :: "callable \<Rightarrow> string \<Rightarrow> DAWG \<Rightarrow> callable \<times> DAWG" where
  "conda f environment g =
     (let (node, g1) = add_and_get_node f g
      in (f, update_node (node_identifier node) (\<lambda>n. setitem n ''conda'' environment) g1))"

section \<open>Concrete inputs\<close>

text \<open>
  A node to which a user attached attributes of their own, two of them under keys that
  the executor also sets.
\<close>

definition user_node :: node where
  "user_node = \<lparr>address = 140, node_identifier = 7, name = ''train'',
     attributes = [(''--export='', ''NONE''), (''conda'', ''ml''), (''--output='', ''mine.log'')],
     tasks = 4, dependencies = []\<rparr>"

text \<open>
  Collaborators that do nothing: \<open>program\<close> returns the nodes in registration order,
  the hooks add no command, and the submission succeeds.
\<close>

definition idle :: collaborators where
  "idle = \<lparr>program = (\<lambda>g. Inr (nodes g)), prune = Returned, apply_defaults = Returned,
     generate_postconditions = (\<lambda>d. Returned), generate_executables = (\<lambda>d. Returned),
     generate_metadata = (\<lambda>d. Returned), generate_before = (\<lambda>n. []),
     generate_after = (\<lambda>n. []), executable_name = (\<lambda>n. str (int (address n)) @ ''.code''),
     abspath = (\<lambda>p. p), mkdtemp_name = (\<lambda>d fs. d @ ''/tmp0''),
     os_system = (\<lambda>c w. (0, w))\<rparr>"

text \<open>
  The example of section 8 of the specification: \<open>A\<close> without dependencies, \<open>B\<close>
  depending on \<open>A\<close>, and \<open>C\<close> depending on \<open>A\<close> and \<open>B\<close>; \<open>C\<close> is an array
  task.
\<close>

definition node_A :: node where
  "node_A = \<lparr>address = 501, node_identifier = 1, name = ''A'', attributes = [],
     tasks = 1, dependencies = []\<rparr>"

definition node_B :: node where
  "node_B = \<lparr>address = 502, node_identifier = 2, name = ''B'',
     attributes = [(''--partition='', ''gpu''), (''conda'', ''ml'')],
     tasks = 1, dependencies = [1]\<rparr>"

definition node_C :: node where
  "node_C = \<lparr>address = 503, node_identifier = 3, name = ''C'', attributes = [],
     tasks = 3, dependencies = [1, 2]\<rparr>"

definition abc :: DAWG where
  "abc = \<lparr>nodes = [node_A, node_B, node_C]\<rparr>"

definition empty_disk :: filesystem where
  "empty_disk = \<lparr>files = [], dirs = []\<rparr>"

text \<open>Three task definitions, and the graph in which nothing is registered.\<close>

definition task_a :: callable where
  "task_a = \<lparr>fn_id = 11, fn_name = ''a''\<rparr>"

definition task_b :: callable where
  "task_b = \<lparr>fn_id = 12, fn_name = ''b''\<rparr>"

definition task_x :: callable where
  "task_x = \<lparr>fn_id = 13, fn_name = ''x''\<rparr>"

definition empty_graph :: DAWG where
  "empty_graph = \<lparr>nodes = []\<rparr>"

text \<open>
  A world in which nothing has happened yet; collaborators for which every postcondition
  holds, with the snapshot and the pruning of section 4.2; and collaborators for which
  the submission fails.
\<close>

definition start_world :: "DAWG \<Rightarrow> world" where
  "start_world g = \<lparr>workflow = g, disk = empty_disk, stdout = [], snapshot = [],
     evaluated = [], calls = []\<rparr>"

definition all_done :: collaborators where
  "all_done = idle\<lparr>generate_postconditions := snapshot_postconditions (\<lambda>n fs. True),
     prune := prune_snapshot\<rparr>"

definition failing_submission :: collaborators where
  "failing_submission = idle\<lparr>os_system := (\<lambda>c w. (1, w))\<rparr>"

text \<open>
  A node with one task to which a user attached an attribute whose key is the beginning
  of the array directive, and a graph in which the task \<open>a\<close> is registered with a
  partition.
\<close>

definition array_named :: node where
  "array_named = \<lparr>address = 601, node_identifier = 6, name = ''D'',
     attributes = [(''--array 0-'', ''0'')], tasks = 1, dependencies = []\<rparr>"

definition partitioned :: DAWG where
  "partitioned = \<lparr>nodes = [\<lparr>address = 701, node_identifier = 11, name = ''a'',
     attributes = [(''--partition='', ''gpu'')], tasks = 1, dependencies = []\<rparr>]\<rparr>"

section \<open>Facts about the decimal representation\<close>

text \<open>
  Distinct numbers have distinct decimal representations, so distinct Node objects get
  distinct task file names.
\<close>

lemma digit_char_inj: "a < 10 \<Longrightarrow> b < 10 \<Longrightarrow> digit_char a = digit_char b \<Longrightarrow> a = b"
proof -
  assume a: "a < 10" and b: "b < 10" and e: "digit_char a = digit_char b"
  have A: "a \<in> {0,1,2,3,4,5,6,7,8,9}" using a by auto
  have B: "b \<in> {0,1,2,3,4,5,6,7,8,9}" using b by auto
  from A B e show ?thesis by (auto simp: digit_char_def)
qed

lemma str_nat_nonempty: "str_nat n \<noteq> []"
  by (subst str_nat.simps) simp

lemma str_nat_inj: "str_nat m = str_nat n \<Longrightarrow> m = n"
proof (induction m arbitrary: n rule: str_nat.induct)
  case (1 m)
  show ?case
  proof (cases "m < 10")
    case True
    then have m: "str_nat m = [digit_char m]" by (subst str_nat.simps) simp
    show ?thesis
    proof (cases "n < 10")
      case n: True
      then have "str_nat n = [digit_char n]" by (subst str_nat.simps) simp
      with m "1.prems" True n show ?thesis by (auto dest: digit_char_inj)
    next
      case n: False
      then have "str_nat n = str_nat (n div 10) @ [digit_char (n mod 10)]"
        by (subst str_nat.simps) simp
      with m "1.prems" have "str_nat (n div 10) = []" by simp
      then show ?thesis using str_nat_nonempty by blast
    qed
  next
    case False
    then have m: "str_nat m = str_nat (m div 10) @ [digit_char (m mod 10)]"
      by (subst str_nat.simps) simp
    show ?thesis
    proof (cases "n < 10")
      case n: True
      then have "str_nat n = [digit_char n]" by (subst str_nat.simps) simp
      with m "1.prems" have "str_nat (m div 10) = []" by simp
      then show ?thesis using str_nat_nonempty by blast
    next
      case n: False
      then have "str_nat n = str_nat (n div 10) @ [digit_char (n mod 10)]"
        by (subst str_nat.simps) simp
      with m "1.prems" have e1: "str_nat (m div 10) = str_nat (n div 10)"
        and e2: "digit_char (m mod 10) = digit_char (n mod 10)" by simp_all
      from "1.IH"[OF False e1] have d: "m div 10 = n div 10" .
      from e2 have "m mod 10 = n mod 10" using digit_char_inj[of "m mod 10" "n mod 10"] by simp
      with d show ?thesis by (metis div_mult_mod_eq)
    qed
  qed
qed

lemma node_task_filename_inj:
  "node_task_filename a = node_task_filename b \<Longrightarrow> address a = address b"
  by (auto simp: node_task_filename_def str_def dest: str_nat_inj)

section \<open>The attributes of a node\<close>

lemma getitem_setitem_same: "getitem (setitem n k v) k = Inr v"
  by (simp add: getitem_def setitem_def AList.update_conv')

lemma getitem_setitem_other: "k' \<noteq> k \<Longrightarrow> getitem (setitem n k v) k' = getitem n k'"
  by (simp add: getitem_def setitem_def AList.update_conv')

lemma setitem_fields:
  "name (setitem n k v) = name n" "tasks (setitem n k v) = tasks n"
  "address (setitem n k v) = address n" "node_identifier (setitem n k v) = node_identifier n"
  "dependencies (setitem n k v) = dependencies n"
  by (simp_all add: setitem_def)

lemma default_attributes_fields:
  "name (default_attributes dir n) = name n" "tasks (default_attributes dir n) = tasks n"
  "address (default_attributes dir n) = address n"
  "node_identifier (default_attributes dir n) = node_identifier n"
  "dependencies (default_attributes dir n) = dependencies n"
  by (simp_all add: default_attributes_def Let_def setitem_fields)

lemma default_attributes_export: "getitem (default_attributes dir n) ''--export='' = Inr ''ALL''"
  by (simp add: default_attributes_def Let_def getitem_setitem_same getitem_setitem_other)

lemma default_attributes_parsable: "getitem (default_attributes dir n) ''--parsable'' = Inr ''''"
  by (simp add: default_attributes_def Let_def getitem_setitem_same getitem_setitem_other)

lemma default_attributes_requeue: "getitem (default_attributes dir n) ''--requeue'' = Inr ''''"
  by (simp add: default_attributes_def Let_def getitem_setitem_same getitem_setitem_other)

lemma default_attributes_job_name:
  "getitem (default_attributes dir n) ''--job-name='' = Inr (dq @ name n @ dq)"
  by (simp add: default_attributes_def Let_def getitem_setitem_same getitem_setitem_other setitem_fields)

lemma default_attributes_output:
  "getitem (default_attributes dir n) ''--output='' =
     Inr (dq @ dir @ ''/logs/'' @ name n @ (if tasks n > 1 then ''-%A_%a.log'' else ''-%j.log'') @ dq)"
  by (simp add: default_attributes_def Let_def getitem_setitem_same setitem_fields)

text \<open>
  Claim C9. \<open>add_default_attributes\<close> assigns on every node of the workflow (the node
  at any position \<open>i\<close> of \<open>workflow.nodes\<close>) the attributes \<open>--export=\<close> with value
  \<open>ALL\<close>, \<open>--parsable\<close> and \<open>--requeue\<close> with the empty value, \<open>--job-name=\<close> with
  the quoted name of the node, and \<open>--output=\<close> with the quoted log path, which ends in
  \<open>-%A_%a.log\<close> when the node has more than one task and in \<open>-%j.log\<close> otherwise. No
  condition is put on the attributes the node had before, so a value a user stored under
  one of these keys is overwritten. The name and the tasks of the node do not change.
\<close>

theorem add_default_attributes_overwrites:
  assumes "i < length (nodes wflow)"
  shows "length (nodes (add_default_attributes wflow dir)) = length (nodes wflow)
    \<and> (let before = nodes wflow ! i; after = nodes (add_default_attributes wflow dir) ! i in
         getitem after ''--export='' = Inr ''ALL''
       \<and> getitem after ''--parsable'' = Inr ''''
       \<and> getitem after ''--requeue'' = Inr ''''
       \<and> getitem after ''--job-name='' = Inr (dq @ name before @ dq)
       \<and> getitem after ''--output='' =
            Inr (dq @ dir @ ''/logs/'' @ name before
                 @ (if tasks before > 1 then ''-%A_%a.log'' else ''-%j.log'') @ dq)
       \<and> name after = name before \<and> tasks after = tasks before)"
proof -
  have len: "length (nodes (add_default_attributes wflow dir)) = length (nodes wflow)"
    by (simp add: add_default_attributes_def)
  have nth: "nodes (add_default_attributes wflow dir) ! i = default_attributes dir (nodes wflow ! i)"
    using assms by (simp add: add_default_attributes_def)
  show ?thesis
    unfolding Let_def nth
    using len default_attributes_export default_attributes_parsable default_attributes_requeue
      default_attributes_job_name default_attributes_output default_attributes_fields(1,2)
    by simp
qed

text \<open>
  The theorem at a workflow with the one node \<open>user_node\<close>, whose own \<open>--export=\<close> and
  \<open>--output=\<close> values are replaced.
\<close>

theorem add_default_attributes_overwrites_witness:
  "0 < length (nodes \<lparr>nodes = [user_node]\<rparr>)
   \<and> getitem user_node ''--export='' = Inr ''NONE''
   \<and> getitem (nodes (add_default_attributes \<lparr>nodes = [user_node]\<rparr> ''/w'') ! 0) ''--export='' = Inr ''ALL''
   \<and> getitem (nodes (add_default_attributes \<lparr>nodes = [user_node]\<rparr> ''/w'') ! 0) ''--output=''
        = Inr (dq @ ''/w/logs/train-%A_%a.log'' @ dq)"
  using add_default_attributes_overwrites [of 0 "\<lparr>nodes = [user_node]\<rparr>" "''/w''"]
  by (simp add: Let_def user_node_def getitem_def)

section \<open>The task files\<close>

text \<open>
  The loop over the attributes never fails on the keys of the node itself, and adds one
  line for each key that starts with \<open>--\<close>, in the order of the keys.
\<close>

lemma attribute_lines_total:
  "set keys \<subseteq> fst ` set (attributes node) \<Longrightarrow>
   attribute_lines node keys lines =
     Inr (lines @ map (\<lambda>key. ''#SBATCH '' @ key @ the (map_of (attributes node) key))
                      (filter (\<lambda>key. take 2 key = ''--'') keys))"
proof (induction keys arbitrary: lines)
  case Nil
  then show ?case by simp
next
  case (Cons key keys)
  from Cons.prems have "key \<in> fst ` set (attributes node)" by simp
  then obtain v where v: "map_of (attributes node) key = Some v"
    by (metis domD dom_map_of_conv_image_fst)
  from Cons.prems have sub: "set keys \<subseteq> fst ` set (attributes node)" by simp
  show ?case
    using Cons.IH[OF sub] v by (simp add: getitem_def)
qed

lemma map_of_distinct_keys:
  "distinct (map fst al) \<Longrightarrow>
   map (\<lambda>key. f key (the (map_of al key))) (filter P (map fst al))
     = map (\<lambda>(k, v). f k v) (filter (\<lambda>(k, v). P k) al)"
proof (induction al)
  case Nil
  then show ?case by simp
next
  case (Cons p al)
  obtain k v where p: "p = (k, v)" by (cases p)
  from Cons.prems p have notin: "k \<notin> fst ` set al" and d: "distinct (map fst al)" by auto
  have "map (\<lambda>key. f key (the (map_of (p # al) key))) (filter P (map fst al))
        = map (\<lambda>key. f key (the (map_of al key))) (filter P (map fst al))"
    using notin p by (auto intro!: map_cong)
  with Cons.IH[OF d] show ?case using p by simp
qed

lemma attribute_lines_distinct:
  assumes "distinct (map fst (attributes node))"
  shows "attribute_lines node (map fst (attributes node)) lines =
     Inr (lines @ map (\<lambda>(k, v). ''#SBATCH '' @ k @ v)
                      (filter (\<lambda>(k, v). take 2 k = ''--'') (attributes node)))"
proof -
  have "attribute_lines node (map fst (attributes node)) lines =
     Inr (lines @ map (\<lambda>key. ''#SBATCH '' @ key @ the (map_of (attributes node) key))
                      (filter (\<lambda>key. take 2 key = ''--'') (map fst (attributes node))))"
    by (rule attribute_lines_total) simp
  also have "map (\<lambda>key. ''#SBATCH '' @ key @ the (map_of (attributes node) key))
                      (filter (\<lambda>key. take 2 key = ''--'') (map fst (attributes node)))
     = map (\<lambda>(k, v). ''#SBATCH '' @ k @ v)
                      (filter (\<lambda>(k, v). take 2 k = ''--'') (attributes node))"
    using map_of_distinct_keys[OF assms, of "\<lambda>k v. ''#SBATCH '' @ k @ v" "\<lambda>key. take 2 key = ''--''"]
    by simp
  finally show ?thesis .
qed

text \<open>
  The lines of a task file in closed form, and the files that the loop of
  \<open>generate_task_files\<close> leaves on the disk.
\<close>

lemma task_file_lines_eq:
  "task_file_lines E dir node =
     Inr (''#!/usr/bin/env bash''
          # map (\<lambda>key. ''#SBATCH '' @ key @ the (map_of (attributes node) key))
                (filter (\<lambda>key. take 2 key = ''--'') (map fst (attributes node)))
          @ (if tasks node > 1 then [''#SBATCH --array 0-'' @ str (tasks node - 1)] else [])
          @ generate_before E node
          @ [''python -u -m awflow.bin.processor ''
               @ abspath E (dir @ ''/'' @ executable_name E node)
               @ (if tasks node > 1 then '' $SLURM_ARRAY_TASK_ID'' else '''')]
          @ generate_after E node)"
proof -
  have "attribute_lines node (map fst (attributes node)) [''#!/usr/bin/env bash''] =
     Inr ([''#!/usr/bin/env bash''] @ map (\<lambda>key. ''#SBATCH '' @ key @ the (map_of (attributes node) key))
                      (filter (\<lambda>key. take 2 key = ''--'') (map fst (attributes node))))"
    by (rule attribute_lines_total) simp
  then show ?thesis by (simp add: task_file_lines_def Let_def)
qed

lemma task_file_lines_Inr: "\<exists>lines. task_file_lines E dir node = Inr lines"
  using task_file_lines_eq by blast

lemma map_of_write_file:
  "map_of (files (write_file path content fs)) p = (if p = path then Some content else map_of (files fs) p)"
  by (simp add: write_file_def AList.update_conv')

lemma dirs_write_file: "dirs (write_file path content fs) = dirs fs"
  by (simp add: write_file_def)

lemma generate_task_files_loop_Inr: "\<exists>fs'. generate_task_files_loop E dir ns fs = Inr fs'"
proof (induction ns arbitrary: fs)
  case Nil
  then show ?case by simp
next
  case (Cons n ns)
  obtain ls where "task_file_lines E dir n = Inr ls" using task_file_lines_Inr by blast
  then show ?case using Cons.IH by simp
qed

lemma generate_task_files_loop_other:
  "generate_task_files_loop E dir ns fs = Inr fs' \<Longrightarrow>
   p \<notin> (\<lambda>n. dir @ ''/'' @ node_task_filename n) ` set ns \<Longrightarrow>
   map_of (files fs') p = map_of (files fs) p"
proof (induction ns arbitrary: fs)
  case Nil
  then show ?case by simp
next
  case (Cons n ns)
  obtain ls where ls: "task_file_lines E dir n = Inr ls" using task_file_lines_Inr by blast
  let ?fs1 = "write_file (dir @ ''/'' @ node_task_filename n) (write_lines ls) fs"
  from Cons.prems(1) ls have run: "generate_task_files_loop E dir ns ?fs1 = Inr fs'" by simp
  from Cons.prems(2) have p: "p \<noteq> dir @ ''/'' @ node_task_filename n"
    and rest: "p \<notin> (\<lambda>n. dir @ ''/'' @ node_task_filename n) ` set ns" by auto
  from Cons.IH[OF run rest] p show ?case by (simp add: map_of_write_file)
qed

lemma generate_task_files_loop_written:
  "generate_task_files_loop E dir ns fs = Inr fs' \<Longrightarrow> distinct (map address ns) \<Longrightarrow>
   n \<in> set ns \<Longrightarrow> task_file_lines E dir n = Inr ls \<Longrightarrow>
   map_of (files fs') (dir @ ''/'' @ node_task_filename n) = Some (write_lines ls)"
proof (induction ns arbitrary: fs)
  case Nil
  then show ?case by simp
next
  case (Cons m ns)
  obtain lm where lm: "task_file_lines E dir m = Inr lm" using task_file_lines_Inr by blast
  let ?fs1 = "write_file (dir @ ''/'' @ node_task_filename m) (write_lines lm) fs"
  from Cons.prems(1) lm have run: "generate_task_files_loop E dir ns ?fs1 = Inr fs'" by simp
  from Cons.prems(2) have d: "distinct (map address ns)" and fresh: "address m \<notin> address ` set ns"
    by auto
  show ?case
  proof (cases "n \<in> set ns")
    case True
    from Cons.IH[OF run d True Cons.prems(4)] show ?thesis .
  next
    case False
    with Cons.prems(3) have nm: "n = m" by simp
    have "dir @ ''/'' @ node_task_filename m \<notin> (\<lambda>n. dir @ ''/'' @ node_task_filename n) ` set ns"
    proof
      assume "dir @ ''/'' @ node_task_filename m \<in> (\<lambda>n. dir @ ''/'' @ node_task_filename n) ` set ns"
      then obtain k where k: "k \<in> set ns" and "node_task_filename m = node_task_filename k"
        by auto
      then have "address m = address k" by (rule_tac node_task_filename_inj)
      with k fresh show False by auto
    qed
    from generate_task_files_loop_other[OF run this] nm lm Cons.prems(4)
    show ?thesis by (simp add: map_of_write_file)
  qed
qed

lemma generate_task_files_loop_dirs:
  "generate_task_files_loop E dir ns fs = Inr fs' \<Longrightarrow> dirs fs' = dirs fs"
proof (induction ns arbitrary: fs)
  case Nil
  then show ?case by simp
next
  case (Cons n ns)
  obtain ls where ls: "task_file_lines E dir n = Inr ls" using task_file_lines_Inr by blast
  with Cons.prems have "generate_task_files_loop E dir ns
     (write_file (dir @ ''/'' @ node_task_filename n) (write_lines ls) fs) = Inr fs'" by simp
  from Cons.IH[OF this] show ?case by (simp add: dirs_write_file)
qed

section \<open>The submission script\<close>

text \<open>
  One passage of the loop of \<open>generate_submission_script\<close>, the lines it appends, and
  the entries of the dictionary \<open>tasks\<close>.
\<close>

lemma dependency_flag_Inr:
  "set ds \<subseteq> dom t \<Longrightarrow> \<exists>flag'. dependency_flag t ds flag = Inr flag'"
proof (induction ds arbitrary: flag)
  case Nil
  then show ?case by simp
next
  case (Cons d ds)
  then obtain j where "t d = Some j" by auto
  with Cons show ?case by simp
qed

lemma dependency_flag_indices:
  "dependency_flag t ds flag = Inr flag' \<Longrightarrow>
   \<exists>indices. flag' = flag @ concat (map (\<lambda>j. '':$t'' @ str (int j)) indices)
     \<and> map Some indices = map t ds"
proof (induction ds arbitrary: flag)
  case Nil
  then show ?case by simp
next
  case (Cons d ds)
  from Cons.prems obtain j where j: "t d = Some j"
    and run: "dependency_flag t ds (flag @ '':$t'' @ str (int j)) = Inr flag'"
    by (auto split: option.splits)
  from Cons.IH[OF run] obtain indices where
    "flag' = (flag @ '':$t'' @ str (int j)) @ concat (map (\<lambda>j. '':$t'' @ str (int j)) indices)"
    and "map Some indices = map t ds" by blast
  with j show ?case by (intro exI[of _ "j # indices"]) simp
qed

lemma submission_loop_Cons:
  "submission_loop dir k (task # rest) st = Inr st' \<Longrightarrow>
   \<exists>flag. (flag = [] \<or>
            (\<exists>indices. flag = ''--dependency=afterok''
                @ concat (map (\<lambda>j. '':$t'' @ str (int j)) indices) @ '' ''))
     \<and> submission_loop dir (Suc k) rest
       \<lparr>script_lines = script_lines st
          @ [''t'' @ str (int k) @ ''=$(sbatch '' @ flag @ dir @ ''/'' @ node_task_filename task @ '')''],
        job_identifiers = job_identifiers st @ ''$t'' @ str (int k) @ nl,
        tasks_dict = (tasks_dict st)(node_identifier task \<mapsto> k)\<rparr> = Inr st'"
proof (cases "dependencies task = []")
  case True
  assume "submission_loop dir k (task # rest) st = Inr st'"
  with True show ?thesis by (intro exI[of _ "[]"]) (simp add: Let_def)
next
  case False
  assume run: "submission_loop dir k (task # rest) st = Inr st'"
  show ?thesis
  proof (cases "dependency_flag ((tasks_dict st)(node_identifier task \<mapsto> k))
                  (dependencies task) ''--dependency=afterok''")
    case (Inl e)
    with run False show ?thesis by (simp add: Let_def)
  next
    case (Inr flag)
    from dependency_flag_indices[OF Inr] obtain indices where
      shape: "flag = ''--dependency=afterok'' @ concat (map (\<lambda>j. '':$t'' @ str (int j)) indices)"
      by blast
    have "flag @ '' '' = [] \<or>
            (\<exists>indices. flag @ '' '' = ''--dependency=afterok''
                @ concat (map (\<lambda>j. '':$t'' @ str (int j)) indices) @ '' '')"
      using shape by auto
    moreover have "submission_loop dir (Suc k) rest
       \<lparr>script_lines = script_lines st
          @ [''t'' @ str (int k) @ ''=$(sbatch '' @ (flag @ '' '') @ dir @ ''/''
               @ node_task_filename task @ '')''],
        job_identifiers = job_identifiers st @ ''$t'' @ str (int k) @ nl,
        tasks_dict = (tasks_dict st)(node_identifier task \<mapsto> k)\<rparr> = Inr st'"
      using run False Inr by (simp add: Let_def)
    ultimately show ?thesis by blast
  qed
qed

lemma submission_loop_lines:
  "submission_loop dir k xs st = Inr st' \<Longrightarrow>
   \<exists>new. script_lines st' = script_lines st @ new \<and> length new = length xs
     \<and> (\<forall>i<length xs. \<exists>flag.
           (flag = [] \<or>
            (\<exists>indices. flag = ''--dependency=afterok''
                @ concat (map (\<lambda>j. '':$t'' @ str (int j)) indices) @ '' ''))
         \<and> new ! i =
           ''t'' @ str (int (k + i)) @ ''=$(sbatch '' @ flag @ dir @ ''/''
             @ node_task_filename (xs ! i) @ '')'')"
proof (induction xs arbitrary: k st)
  case Nil
  then show ?case by simp
next
  case (Cons x xs)
  from submission_loop_Cons[OF Cons.prems] obtain flag0 where
    shape0: "flag0 = [] \<or>
            (\<exists>indices. flag0 = ''--dependency=afterok''
                @ concat (map (\<lambda>j. '':$t'' @ str (int j)) indices) @ '' '')" and
    run: "submission_loop dir (Suc k) xs
       \<lparr>script_lines = script_lines st
          @ [''t'' @ str (int k) @ ''=$(sbatch '' @ flag0 @ dir @ ''/'' @ node_task_filename x @ '')''],
        job_identifiers = job_identifiers st @ ''$t'' @ str (int k) @ nl,
        tasks_dict = (tasks_dict st)(node_identifier x \<mapsto> k)\<rparr> = Inr st'" by blast
  let ?l = "''t'' @ str (int k) @ ''=$(sbatch '' @ flag0 @ dir @ ''/'' @ node_task_filename x @ '')''"
  from Cons.IH[OF run] obtain new where
    n1: "script_lines st' = (script_lines st @ [?l]) @ new" and n2: "length new = length xs"
    and n3: "\<forall>i<length xs. \<exists>flag.
           (flag = [] \<or>
            (\<exists>indices. flag = ''--dependency=afterok''
                @ concat (map (\<lambda>j. '':$t'' @ str (int j)) indices) @ '' ''))
         \<and> new ! i =
           ''t'' @ str (int (Suc k + i)) @ ''=$(sbatch '' @ flag @ dir @ ''/''
             @ node_task_filename (xs ! i) @ '')''" by auto
  have "\<forall>i<length (x # xs). \<exists>flag.
           (flag = [] \<or>
            (\<exists>indices. flag = ''--dependency=afterok''
                @ concat (map (\<lambda>j. '':$t'' @ str (int j)) indices) @ '' ''))
         \<and> (?l # new) ! i =
           ''t'' @ str (int (k + i)) @ ''=$(sbatch '' @ flag @ dir @ ''/''
             @ node_task_filename ((x # xs) ! i) @ '')''"
  proof (intro allI impI)
    fix i assume i: "i < length (x # xs)"
    show "\<exists>flag.
           (flag = [] \<or>
            (\<exists>indices. flag = ''--dependency=afterok''
                @ concat (map (\<lambda>j. '':$t'' @ str (int j)) indices) @ '' ''))
         \<and> (?l # new) ! i =
           ''t'' @ str (int (k + i)) @ ''=$(sbatch '' @ flag @ dir @ ''/''
             @ node_task_filename ((x # xs) ! i) @ '')''"
    proof (cases i)
      case 0
      with shape0 show ?thesis by (intro exI[of _ flag0]) simp
    next
      case (Suc i')
      with i have "i' < length xs" by simp
      with n3 obtain flag where
        "flag = [] \<or>
            (\<exists>indices. flag = ''--dependency=afterok''
                @ concat (map (\<lambda>j. '':$t'' @ str (int j)) indices) @ '' '')"
        and "new ! i' =
           ''t'' @ str (int (Suc k + i')) @ ''=$(sbatch '' @ flag @ dir @ ''/''
             @ node_task_filename (xs ! i') @ '')''" by blast
      with Suc show ?thesis by (intro exI[of _ flag]) simp
    qed
  qed
  with n1 n2 show ?case by (intro exI[of _ "?l # new"]) simp
qed

lemma submission_loop_dict:
  "submission_loop dir k xs st = Inr st' \<Longrightarrow> tasks_dict st' d = Some j \<Longrightarrow>
   tasks_dict st d = Some j \<or> (k \<le> j \<and> j < k + length xs \<and> node_identifier (xs ! (j - k)) = d)"
proof (induction xs arbitrary: k st)
  case Nil
  then show ?case by simp
next
  case (Cons x xs)
  from submission_loop_Cons[OF Cons.prems(1)] obtain flag0 where
    run: "submission_loop dir (Suc k) xs
       \<lparr>script_lines = script_lines st
          @ [''t'' @ str (int k) @ ''=$(sbatch '' @ flag0 @ dir @ ''/'' @ node_task_filename x @ '')''],
        job_identifiers = job_identifiers st @ ''$t'' @ str (int k) @ nl,
        tasks_dict = (tasks_dict st)(node_identifier x \<mapsto> k)\<rparr> = Inr st'" by blast
  from Cons.IH[OF run Cons.prems(2)]
  have "((tasks_dict st)(node_identifier x \<mapsto> k)) d = Some j
        \<or> (Suc k \<le> j \<and> j < Suc k + length xs \<and> node_identifier (xs ! (j - Suc k)) = d)"
    by simp
  then show ?case
  proof
    assume "((tasks_dict st)(node_identifier x \<mapsto> k)) d = Some j"
    then show ?thesis by (auto split: if_splits)
  next
    assume a: "Suc k \<le> j \<and> j < Suc k + length xs \<and> node_identifier (xs ! (j - Suc k)) = d"
    then have "j - k = Suc (j - Suc k)" by arith
    with a show ?thesis by auto
  qed
qed

lemma submission_loop_dom:
  "submission_loop dir k xs st = Inr st' \<Longrightarrow>
   dom (tasks_dict st') = dom (tasks_dict st) \<union> node_identifier ` set xs"
proof (induction xs arbitrary: k st)
  case Nil
  then show ?case by simp
next
  case (Cons x xs)
  from submission_loop_Cons[OF Cons.prems(1)] obtain flag0 where
    run: "submission_loop dir (Suc k) xs
       \<lparr>script_lines = script_lines st
          @ [''t'' @ str (int k) @ ''=$(sbatch '' @ flag0 @ dir @ ''/'' @ node_task_filename x @ '')''],
        job_identifiers = job_identifiers st @ ''$t'' @ str (int k) @ nl,
        tasks_dict = (tasks_dict st)(node_identifier x \<mapsto> k)\<rparr> = Inr st'" by blast
  from Cons.IH[OF run] show ?case by auto
qed

lemma submission_loop_Inr:
  "(\<And>m. m < length xs \<Longrightarrow>
      set (dependencies (xs ! m)) \<subseteq> dom (tasks_dict st) \<union> node_identifier ` set (take (Suc m) xs))
   \<Longrightarrow> \<exists>st'. submission_loop dir k xs st = Inr st'"
proof (induction xs arbitrary: k st)
  case Nil
  then show ?case by simp
next
  case (Cons x xs)
  let ?t1 = "(tasks_dict st)(node_identifier x \<mapsto> k)"
  from Cons.prems[of 0] have "set (dependencies x) \<subseteq> dom ?t1" by auto
  from dependency_flag_Inr[OF this] obtain flag where
    flag: "dependency_flag ?t1 (dependencies x) ''--dependency=afterok'' = Inr flag" by blast
  define line1 where "line1 = (if length (dependencies x) > 0
       then ''t'' @ str (int k) @ ''=$(sbatch '' @ flag @ '' ''
       else ''t'' @ str (int k) @ ''=$(sbatch '')"
  let ?st1 = "\<lparr>script_lines = script_lines st @ [line1 @ dir @ ''/'' @ node_task_filename x @ '')''],
        job_identifiers = job_identifiers st @ ''$t'' @ str (int k) @ nl,
        tasks_dict = ?t1\<rparr>"
  have step: "submission_loop dir k (x # xs) st = submission_loop dir (Suc k) xs ?st1"
    using flag by (simp add: Let_def line1_def)
  have "\<And>m. m < length xs \<Longrightarrow>
      set (dependencies (xs ! m)) \<subseteq> dom (tasks_dict ?st1) \<union> node_identifier ` set (take (Suc m) xs)"
  proof -
    fix m assume m: "m < length xs"
    from Cons.prems[of "Suc m"] m show
      "set (dependencies (xs ! m)) \<subseteq> dom (tasks_dict ?st1) \<union> node_identifier ` set (take (Suc m) xs)"
      by auto
  qed
  from Cons.IH[OF this] step show ?case by simp
qed

text \<open>
  The loop over a list that is split in two runs over the first part and then over the
  second. So the state in which the passage for the task at index \<open>i\<close> starts is the
  state the loop reaches over the first \<open>i\<close> tasks.
\<close>

lemma submission_loop_append:
  "submission_loop dir k (xs @ ys) st =
     (case submission_loop dir k xs st of
        Inl e \<Rightarrow> Inl e
      | Inr st1 \<Rightarrow> submission_loop dir (k + length xs) ys st1)"
proof (induction xs arbitrary: k st)
  case Nil
  then show ?case by simp
next
  case (Cons x xs)
  show ?case
    by (simp add: Let_def Cons.IH split: sum.splits)
qed

lemma no_self_dependency:
  assumes order: "\<forall>i<length prog. \<forall>d\<in>set (dependencies (prog ! i)).
                    \<exists>j<i. node_identifier (prog ! j) = d"
    and ident: "inj_on node_identifier (set prog)"
    and i: "i < length prog"
  shows "node_identifier (prog ! i) \<notin> set (dependencies (prog ! i))"
proof
  assume self: "node_identifier (prog ! i) \<in> set (dependencies (prog ! i))"
  define m where "m = (LEAST m. m < length prog \<and> prog ! m = prog ! i)"
  have "m < length prog \<and> prog ! m = prog ! i"
    unfolding m_def by (rule LeastI[of _ i]) (simp add: i)
  then have m: "m < length prog" and pm: "prog ! m = prog ! i" by simp_all
  from self pm have "node_identifier (prog ! i) \<in> set (dependencies (prog ! m))" by simp
  with order m obtain j where j: "j < m"
    and idj: "node_identifier (prog ! j) = node_identifier (prog ! i)" by blast
  from j m have jl: "j < length prog" by simp
  from ident idj jl i have "prog ! j = prog ! i" by (auto dest: inj_onD)
  with jl have "m \<le> j" unfolding m_def by (intro Least_le) simp
  with j show False by simp
qed

text \<open>
  Claim C1. Let \<open>workflow.program()\<close> return a sequence in which the dependencies of
  every node stand before the node, the identifier being unique to a node (two entries
  of the sequence with one identifier are the same node). Then
  \<open>generate_submission_script\<close> raises no \<open>KeyError\<close> and returns, and in the passage
  of its loop for the task at index \<open>i\<close>, which starts in the state \<open>st\<close> reached
  over the first \<open>i\<close> tasks, the dictionary \<open>tasks\<close> after the assignment
  \<open>tasks[task.identifier] = task_index\<close> holds for every dependency of the task an
  index \<open>j\<close> that is strictly smaller than \<open>i\<close>, and is the index of the node with
  that identifier.
\<close>

theorem dependency_lookup_succeeds:
  assumes order: "\<forall>i<length prog. \<forall>d\<in>set (dependencies (prog ! i)).
                    \<exists>j<i. node_identifier (prog ! j) = d"
    and ident: "inj_on node_identifier (set prog)"
    and prog: "program E wflow = Inr prog"
  shows "(\<exists>fs'. generate_submission_script E wflow dir fs = Inr fs')
    \<and> (\<forall>i<length prog. \<exists>st.
          submission_loop dir 0 (take i prog) (script_start dir) = Inr st
        \<and> submission_loop dir 0 prog (script_start dir) = submission_loop dir i (drop i prog) st
        \<and> (\<forall>d\<in>set (dependencies (prog ! i)). \<exists>j<i.
              ((tasks_dict st)(node_identifier (prog ! i) \<mapsto> i)) d = Some j
            \<and> node_identifier (prog ! j) = d))"
proof -
  have pre: "\<And>n m. n \<le> length prog \<Longrightarrow> m < length (take n prog) \<Longrightarrow>
      set (dependencies (take n prog ! m))
        \<subseteq> dom (tasks_dict (script_start dir)) \<union> node_identifier ` set (take (Suc m) (take n prog))"
  proof
    fix n m d
    assume n: "n \<le> length prog" and m: "m < length (take n prog)"
      and d: "d \<in> set (dependencies (take n prog ! m))"
    from m have mn: "m < n" and ml: "m < length prog" by simp_all
    with d have "d \<in> set (dependencies (prog ! m))" by simp
    with order ml obtain j where j: "j < m" and idj: "node_identifier (prog ! j) = d" by blast
    from j mn n have "take (Suc m) (take n prog) ! j = prog ! j" by simp
    moreover from j mn n have "j < length (take (Suc m) (take n prog))" by simp
    ultimately have "prog ! j \<in> set (take (Suc m) (take n prog))" by (metis nth_mem)
    with idj show "d \<in> dom (tasks_dict (script_start dir))
        \<union> node_identifier ` set (take (Suc m) (take n prog))" by blast
  qed
  have whole: "\<exists>st. submission_loop dir 0 prog (script_start dir) = Inr st"
    using submission_loop_Inr[of "take (length prog) prog" "script_start dir" dir 0]
      pre[of "length prog"] by simp
  then obtain stf where "submission_loop dir 0 prog (script_start dir) = Inr stf" by blast
  with prog have first: "\<exists>fs'. generate_submission_script E wflow dir fs = Inr fs'"
    by (simp add: generate_submission_script_def)
  have second: "\<forall>i<length prog. \<exists>st.
          submission_loop dir 0 (take i prog) (script_start dir) = Inr st
        \<and> submission_loop dir 0 prog (script_start dir) = submission_loop dir i (drop i prog) st
        \<and> (\<forall>d\<in>set (dependencies (prog ! i)). \<exists>j<i.
              ((tasks_dict st)(node_identifier (prog ! i) \<mapsto> i)) d = Some j
            \<and> node_identifier (prog ! j) = d)"
  proof (intro allI impI)
    fix i assume i: "i < length prog"
    from submission_loop_Inr[of "take i prog" "script_start dir" dir 0] pre[of i] i
    obtain st where st: "submission_loop dir 0 (take i prog) (script_start dir) = Inr st"
      by auto
    have "submission_loop dir 0 (take i prog @ drop i prog) (script_start dir)
          = submission_loop dir i (drop i prog) st"
      using st i by (simp add: submission_loop_append del: append_take_drop_id)
    then have split: "submission_loop dir 0 prog (script_start dir)
          = submission_loop dir i (drop i prog) st" by simp
    have look: "\<forall>d\<in>set (dependencies (prog ! i)). \<exists>j<i.
              ((tasks_dict st)(node_identifier (prog ! i) \<mapsto> i)) d = Some j
            \<and> node_identifier (prog ! j) = d"
    proof
      fix d assume d: "d \<in> set (dependencies (prog ! i))"
      from no_self_dependency[OF order ident i] d
      have ne: "d \<noteq> node_identifier (prog ! i)" by auto
      from order i d obtain j0 where j0: "j0 < i" and idj0: "node_identifier (prog ! j0) = d"
        by blast
      from j0 i have "prog ! j0 \<in> set (take i prog)"
        by (metis length_take min.absorb2 less_imp_le nth_mem nth_take)
      with idj0 have "d \<in> node_identifier ` set (take i prog)" by blast
      with submission_loop_dom[OF st] have "d \<in> dom (tasks_dict st)" by simp
      then obtain j where dj: "tasks_dict st d = Some j" by auto
      from submission_loop_dict[OF st dj] i
      have "j < i \<and> node_identifier (prog ! j) = d"
        by (auto simp: script_start_def)
      with dj ne show "\<exists>j<i. ((tasks_dict st)(node_identifier (prog ! i) \<mapsto> i)) d = Some j
            \<and> node_identifier (prog ! j) = d" by auto
    qed
    from st split look show "\<exists>st.
          submission_loop dir 0 (take i prog) (script_start dir) = Inr st
        \<and> submission_loop dir 0 prog (script_start dir) = submission_loop dir i (drop i prog) st
        \<and> (\<forall>d\<in>set (dependencies (prog ! i)). \<exists>j<i.
              ((tasks_dict st)(node_identifier (prog ! i) \<mapsto> i)) d = Some j
            \<and> node_identifier (prog ! j) = d)" by blast
  qed
  from first second show ?thesis by blast
qed

text \<open>
  The theorem at the order \<open>A, B, C\<close> of the example: in the passage for \<open>C\<close> (index
  2) the lookups of \<open>A\<close> and \<open>B\<close> give the indices 0 and 1.
\<close>

theorem dependency_lookup_succeeds_witness:
  "program idle abc = Inr (nodes abc)
   \<and> inj_on node_identifier (set (nodes abc))
   \<and> (\<exists>fs'. generate_submission_script idle abc ''/w'' empty_disk = Inr fs')
   \<and> (\<exists>st. submission_loop ''/w'' 0 (take 2 (nodes abc)) (script_start ''/w'') = Inr st
         \<and> ((tasks_dict st)(node_identifier node_C \<mapsto> 2)) (node_identifier node_A) = Some 0
         \<and> ((tasks_dict st)(node_identifier node_C \<mapsto> 2)) (node_identifier node_B) = Some 1)"
proof -
  have nodes: "nodes abc = [node_A, node_B, node_C]" by (simp add: abc_def)
  have ids: "node_identifier node_A = 1" "node_identifier node_B = 2" "node_identifier node_C = 3"
    by (simp_all add: node_A_def node_B_def node_C_def)
  have deps: "dependencies node_A = []" "dependencies node_B = [1]" "dependencies node_C = [1, 2]"
    by (simp_all add: node_A_def node_B_def node_C_def)
  have prog: "program idle abc = Inr (nodes abc)" by (simp add: idle_def)
  have ident: "inj_on node_identifier (set (nodes abc))"
    by (auto simp: nodes ids inj_on_def)
  have order: "\<forall>i<length (nodes abc). \<forall>d\<in>set (dependencies (nodes abc ! i)).
                 \<exists>j<i. node_identifier (nodes abc ! j) = d"
  proof (intro allI impI)
    fix i assume "i < length (nodes abc)"
    then have "i = 0 \<or> i = 1 \<or> i = 2" by (auto simp: nodes)
    then show "\<forall>d\<in>set (dependencies (nodes abc ! i)). \<exists>j<i. node_identifier (nodes abc ! j) = d"
    proof (elim disjE)
      assume "i = 0" then show ?thesis by (simp add: nodes deps)
    next
      assume "i = 1" then show ?thesis by (simp add: nodes deps ids)
    next
      assume i: "i = 2"
      have "\<exists>j<2. node_identifier ([node_A, node_B, node_C] ! j) = 1"
        by (rule exI[of _ 0]) (simp add: ids)
      moreover have "\<exists>j<2. node_identifier ([node_A, node_B, node_C] ! j) = 2"
        by (rule exI[of _ 1]) (simp add: ids)
      ultimately show ?thesis using i by (simp add: nodes deps)
    qed
  qed
  note inst = dependency_lookup_succeeds [OF order ident prog, of "''/w''" empty_disk]
  from inst have first: "\<exists>fs'. generate_submission_script idle abc ''/w'' empty_disk = Inr fs'"
    by blast
  from inst have every: "\<forall>i<length (nodes abc). \<exists>st.
          submission_loop ''/w'' 0 (take i (nodes abc)) (script_start ''/w'') = Inr st
        \<and> submission_loop ''/w'' 0 (nodes abc) (script_start ''/w'')
            = submission_loop ''/w'' i (drop i (nodes abc)) st
        \<and> (\<forall>d\<in>set (dependencies (nodes abc ! i)). \<exists>j<i.
              ((tasks_dict st)(node_identifier (nodes abc ! i) \<mapsto> i)) d = Some j
            \<and> node_identifier (nodes abc ! j) = d)"
    by (rule conjunct2)
  have two: "2 < length (nodes abc)" by (simp add: nodes)
  from every two obtain st where st: "submission_loop ''/w'' 0 (take 2 (nodes abc)) (script_start ''/w'') = Inr st"
    and look: "\<forall>d\<in>set (dependencies (nodes abc ! 2)). \<exists>j<2.
              ((tasks_dict st)(node_identifier (nodes abc ! 2) \<mapsto> 2)) d = Some j
            \<and> node_identifier (nodes abc ! j) = d" by blast
  have third: "nodes abc ! 2 = node_C" by (simp add: nodes)
  from look obtain j where j: "j < 2"
    and dj: "((tasks_dict st)(node_identifier node_C \<mapsto> 2)) 1 = Some j"
    and idj: "node_identifier (nodes abc ! j) = 1"
    unfolding third by (auto simp: deps)
  from j have "j = 0 \<or> j = 1" by auto
  with idj have "j = 0" by (auto simp: nodes ids)
  with dj have a: "((tasks_dict st)(node_identifier node_C \<mapsto> 2)) (node_identifier node_A) = Some 0"
    by (simp add: ids)
  from look obtain k where k: "k < 2"
    and dk: "((tasks_dict st)(node_identifier node_C \<mapsto> 2)) 2 = Some k"
    and idk: "node_identifier (nodes abc ! k) = 2"
    unfolding third by (auto simp: deps)
  from k have "k = 0 \<or> k = 1" by auto
  with idk have "k = 1" by (auto simp: nodes ids)
  with dk have b: "((tasks_dict st)(node_identifier node_C \<mapsto> 2)) (node_identifier node_B) = Some 1"
    by (simp add: ids)
  from prog ident first st a b show ?thesis by blast
qed

text \<open>The paths of the files on the disk after \<open>generate_task_files\<close>.\<close>

lemma generate_task_files_names:
  "generate_task_files_loop E dir ns fs = Inr fs' \<Longrightarrow>
   fst ` set (files fs') = fst ` set (files fs) \<union> (\<lambda>n. dir @ ''/'' @ node_task_filename n) ` set ns"
proof (induction ns arbitrary: fs)
  case Nil
  then show ?case by simp
next
  case (Cons n ns)
  obtain ls where ls: "task_file_lines E dir n = Inr ls" using task_file_lines_Inr by blast
  with Cons.prems have "generate_task_files_loop E dir ns
     (write_file (dir @ ''/'' @ node_task_filename n) (write_lines ls) fs) = Inr fs'" by simp
  from Cons.IH[OF this] show ?case by (auto simp: write_file_def AList.dom_update)
qed

section \<open>The decorators and the graph\<close>

text \<open>
  How the Node registered under an identifier changes when a task definition is
  registered and when a Node object is changed.
\<close>

lemma declared_eq: "(if \<not> is_iterable deps then [the_single deps] else the_list deps) = declared deps"
  by (cases deps) simp_all

lemma find_node_Some: "find_node i g = Some n \<Longrightarrow> node_identifier n = i \<and> n \<in> set (nodes g)"
  by (auto simp: find_node_def find_Some_iff)

lemma find_node_None: "find_node i g = None \<longleftrightarrow> i \<notin> node_identifier ` set (nodes g)"
  by (auto simp: find_node_def find_None_iff)

lemma find_snoc:
  "find P (ns @ [x]) = (case find P ns of Some n \<Rightarrow> Some n | None \<Rightarrow> if P x then Some x else None)"
  by (induction ns) auto

lemma find_node_add_and_get_node:
  "find_node i (snd (add_and_get_node f g)) =
     (case find_node i g of
        Some n \<Rightarrow> Some n
      | None \<Rightarrow> if i = fn_id f then Some (new_node f g) else None)"
proof (cases "find_node (fn_id f) g")
  case None
  have id: "node_identifier (new_node f g) = fn_id f" by (simp add: new_node_def)
  have "find (\<lambda>n. node_identifier n = i) (nodes g @ [new_node f g]) =
     (case find (\<lambda>n. node_identifier n = i) (nodes g) of
        Some n \<Rightarrow> Some n
      | None \<Rightarrow> if i = fn_id f then Some (new_node f g) else None)"
    using id by (auto simp: find_snoc)
  with None show ?thesis by (simp add: add_and_get_node_def find_node_def)
next
  case (Some n)
  then have "snd (add_and_get_node f g) = g" by (simp add: add_and_get_node_def)
  moreover have "find_node i g = None \<Longrightarrow> i \<noteq> fn_id f" using Some by auto
  ultimately show ?thesis by (auto split: option.splits)
qed

lemma add_and_get_node_identifier: "node_identifier (fst (add_and_get_node f g)) = fn_id f"
  by (auto simp: add_and_get_node_def new_node_def split: option.splits dest: find_node_Some)

lemma add_and_get_node_found:
  "find_node (fn_id f) (snd (add_and_get_node f g)) = Some (fst (add_and_get_node f g))"
  by (simp add: find_node_add_and_get_node) (simp add: add_and_get_node_def split: option.splits)

lemma find_map_same_identifier:
  "(\<And>n. node_identifier (change n) = node_identifier n) \<Longrightarrow>
   find (\<lambda>n. node_identifier n = i) (map (\<lambda>n. if node_identifier n = a then change n else n) ns)
     = map_option (\<lambda>n. if i = a then change n else n) (find (\<lambda>n. node_identifier n = i) ns)"
  by (induction ns) auto

lemma find_node_update_node:
  "(\<And>n. node_identifier (change n) = node_identifier n) \<Longrightarrow>
   find_node i (update_node a change g)
     = map_option (\<lambda>n. if i = a then change n else n) (find_node i g)"
  by (simp add: find_node_def update_node_def find_map_same_identifier)

lemma find_node_add_dependency:
  "a \<noteq> b \<Longrightarrow> \<exists>g'. add_dependency a b g = Inr g' \<and>
     (\<forall>i. find_node i g' = map_option
        (\<lambda>n. if i = a then n\<lparr>dependencies :=
                      (if b \<in> set (dependencies n) then dependencies n
                       else dependencies n @ [b])\<rparr> else n) (find_node i g))"
  by (simp add: add_dependency_def find_node_update_node)

text \<open>
  One passage of the loop of \<open>dependency\<close> for a dependency that is not \<open>f\<close>; the
  loop over dependencies none of which is \<open>f\<close>; and the loop over dependencies one of
  which is \<open>f\<close>.
\<close>

lemma dependency_loop_step:
  assumes "fn_id f \<noteq> fn_id d" and "node_identifier node = fn_id f"
  shows "\<exists>g2. dependency_loop f node (d # rest) g = dependency_loop f node rest g2
     \<and> (\<forall>i. find_node i g2 =
          (case find_node i g of
             Some n \<Rightarrow> Some (if i = fn_id f
                 then n\<lparr>dependencies :=
                      (if fn_id d \<in> set (dependencies n) then dependencies n
                       else dependencies n @ [fn_id d])\<rparr> else n)
           | None \<Rightarrow> if i = fn_id d then Some (new_node d g) else None))"
proof -
  obtain dn g1 where ag: "add_and_get_node d g = (dn, g1)" by (cases "add_and_get_node d g")
  have dn: "node_identifier dn = fn_id d"
    using add_and_get_node_identifier[of d g] ag by simp
  from assms dn have ne: "node_identifier node \<noteq> node_identifier dn" by simp
  from find_node_add_dependency[OF ne, of g1] obtain g2 where
    ad: "add_dependency (node_identifier node) (node_identifier dn) g1 = Inr g2"
    and f2: "\<forall>i. find_node i g2 = map_option
        (\<lambda>n. if i = node_identifier node then n\<lparr>dependencies :=
                      (if node_identifier dn \<in> set (dependencies n) then dependencies n
                       else dependencies n @ [node_identifier dn])\<rparr> else n) (find_node i g1)"
    by blast
  have f1: "\<And>i. find_node i g1 =
     (case find_node i g of
        Some n \<Rightarrow> Some n
      | None \<Rightarrow> if i = fn_id d then Some (new_node d g) else None)"
    using find_node_add_and_get_node[of _ d g] ag by simp
  have step: "dependency_loop f node (d # rest) g = dependency_loop f node rest g2"
    using assms(1) ag ad by simp
  have "\<forall>i. find_node i g2 =
          (case find_node i g of
             Some n \<Rightarrow> Some (if i = fn_id f
                 then n\<lparr>dependencies :=
                      (if fn_id d \<in> set (dependencies n) then dependencies n
                       else dependencies n @ [fn_id d])\<rparr> else n)
           | None \<Rightarrow> if i = fn_id d then Some (new_node d g) else None)"
    using f2 f1 dn assms by (auto split: option.splits)
  with step show ?thesis by blast
qed

lemma dependency_loop_returns:
  assumes "fn_id f \<notin> fn_id ` set ds" and "node_identifier node = fn_id f"
  shows "\<exists>g'. dependency_loop f node ds g = (None, g')
     \<and> (\<forall>i. find_node i g' = None \<longleftrightarrow> find_node i g = None \<and> i \<notin> fn_id ` set ds)
     \<and> (\<forall>n. find_node (fn_id f) g = Some n \<longrightarrow>
           (\<exists>n'. find_node (fn_id f) g' = Some n'
              \<and> set (dependencies n') = set (dependencies n) \<union> fn_id ` set ds))"
  using assms
proof (induction ds arbitrary: g)
  case Nil
  then show ?case by simp
next
  case (Cons d ds)
  from Cons.prems have ne: "fn_id f \<noteq> fn_id d" and rest: "fn_id f \<notin> fn_id ` set ds" by auto
  from dependency_loop_step[OF ne Cons.prems(2), of ds g] obtain g2 where
    step: "dependency_loop f node (d # ds) g = dependency_loop f node ds g2"
    and f2: "\<forall>i. find_node i g2 =
          (case find_node i g of
             Some n \<Rightarrow> Some (if i = fn_id f
                 then n\<lparr>dependencies :=
                      (if fn_id d \<in> set (dependencies n) then dependencies n
                       else dependencies n @ [fn_id d])\<rparr> else n)
           | None \<Rightarrow> if i = fn_id d then Some (new_node d g) else None)" by blast
  from Cons.IH[OF rest Cons.prems(2), of g2] obtain g' where
    run: "dependency_loop f node ds g2 = (None, g')"
    and dom: "\<forall>i. find_node i g' = None \<longleftrightarrow> find_node i g2 = None \<and> i \<notin> fn_id ` set ds"
    and deps: "\<forall>n. find_node (fn_id f) g2 = Some n \<longrightarrow>
           (\<exists>n'. find_node (fn_id f) g' = Some n'
              \<and> set (dependencies n') = set (dependencies n) \<union> fn_id ` set ds)" by blast
  have a: "dependency_loop f node (d # ds) g = (None, g')" using step run by simp
  have b: "\<forall>i. find_node i g' = None \<longleftrightarrow> find_node i g = None \<and> i \<notin> fn_id ` set (d # ds)"
    using dom f2 by (auto split: option.splits)
  have c: "\<forall>n. find_node (fn_id f) g = Some n \<longrightarrow>
           (\<exists>n'. find_node (fn_id f) g' = Some n'
              \<and> set (dependencies n') = set (dependencies n) \<union> fn_id ` set (d # ds))"
  proof (intro allI impI)
    fix n assume n: "find_node (fn_id f) g = Some n"
    let ?n2 = "n\<lparr>dependencies :=
                      (if fn_id d \<in> set (dependencies n) then dependencies n
                       else dependencies n @ [fn_id d])\<rparr>"
    from f2 n have "find_node (fn_id f) g2 = Some ?n2" by simp
    with deps obtain n' where n': "find_node (fn_id f) g' = Some n'"
      and s: "set (dependencies n') = set (dependencies ?n2) \<union> fn_id ` set ds" by blast
    have "set (dependencies ?n2) = insert (fn_id d) (set (dependencies n))" by auto
    with n' s show "\<exists>n'. find_node (fn_id f) g' = Some n'
              \<and> set (dependencies n') = set (dependencies n) \<union> fn_id ` set (d # ds)" by auto
  qed
  from a b c show ?case by blast
qed

lemma dependency_loop_raises:
  assumes "fn_id f \<in> fn_id ` set ds" and "node_identifier node = fn_id f"
  shows "dependency_loop f node ds g =
      (Some (ValueError ''A function cannot depend on itself.''),
       snd (dependency_loop f node (takeWhile (\<lambda>d. fn_id d \<noteq> fn_id f) ds) g))"
  using assms
proof (induction ds arbitrary: g)
  case Nil
  then show ?case by simp
next
  case (Cons d ds)
  show ?case
  proof (cases "fn_id f = fn_id d")
    case True
    then show ?thesis by simp
  next
    case False
    with Cons.prems have rest: "fn_id f \<in> fn_id ` set ds" by auto
    obtain dn g1 where ag: "add_and_get_node d g = (dn, g1)" by (cases "add_and_get_node d g")
    have dn: "node_identifier dn = fn_id d"
      using add_and_get_node_identifier[of d g] ag by simp
    with False Cons.prems(2) have "node_identifier node \<noteq> node_identifier dn" by simp
    from find_node_add_dependency[OF this, of g1] obtain g2 where
      ad: "add_dependency (node_identifier node) (node_identifier dn) g1 = Inr g2" by blast
    have s1: "\<And>rest. dependency_loop f node (d # rest) g = dependency_loop f node rest g2"
      using False ag ad by simp
    have tw: "takeWhile (\<lambda>d. fn_id d \<noteq> fn_id f) (d # ds) = d # takeWhile (\<lambda>d. fn_id d \<noteq> fn_id f) ds"
      using False by simp
    show ?thesis
      unfolding tw s1 by (rule Cons.IH[OF rest Cons.prems(2)])
  qed
qed

text \<open>
  Claim C5. Let none of the task definitions that \<open>dependency(f, ds)\<close> declares, given
  as a list or as a single instance, be \<open>f\<close>. Then the call returns \<open>f\<close>; the
  identifiers registered in the graph after it are those registered before, that of
  \<open>f\<close> and those of the declared definitions; and the dependency set of the Node of
  \<open>f\<close> is the one it had (none, when the Node is new) together with the Nodes of the
  declared definitions.
\<close>

theorem dependency_registers:
  assumes "fn_id f \<notin> fn_id ` set (declared deps)"
  shows "fst (dependency f deps g) = Inr f
    \<and> (\<forall>i. find_node i (snd (dependency f deps g)) = None \<longleftrightarrow>
          find_node i g = None \<and> i \<noteq> fn_id f \<and> i \<notin> fn_id ` set (declared deps))
    \<and> (\<exists>n'. find_node (fn_id f) (snd (dependency f deps g)) = Some n'
          \<and> set (dependencies n') =
              set (dependencies (fst (add_and_get_node f g))) \<union> fn_id ` set (declared deps))"
proof -
  obtain node g1 where ag: "add_and_get_node f g = (node, g1)" by (cases "add_and_get_node f g")
  have id: "node_identifier node = fn_id f"
    using add_and_get_node_identifier[of f g] ag by simp
  have found: "find_node (fn_id f) g1 = Some node"
    using add_and_get_node_found[of f g] ag by simp
  have dom1: "\<And>i. find_node i g1 = None \<longleftrightarrow> find_node i g = None \<and> i \<noteq> fn_id f"
    using find_node_add_and_get_node[of _ f g] ag by (auto split: option.splits)
  from dependency_loop_returns[OF assms id, of g1] obtain g' where
    run: "dependency_loop f node (declared deps) g1 = (None, g')"
    and dom: "\<forall>i. find_node i g' = None \<longleftrightarrow> find_node i g1 = None \<and> i \<notin> fn_id ` set (declared deps)"
    and deps: "\<forall>n. find_node (fn_id f) g1 = Some n \<longrightarrow>
           (\<exists>n'. find_node (fn_id f) g' = Some n'
              \<and> set (dependencies n') = set (dependencies n) \<union> fn_id ` set (declared deps))"
    by blast
  have res: "dependency f deps g = (Inr f, g')"
    using ag run by (simp add: dependency_def declared_eq)
  from deps found obtain n' where "find_node (fn_id f) g' = Some n'"
    and "set (dependencies n') = set (dependencies node) \<union> fn_id ` set (declared deps)" by blast
  with res dom dom1 ag show ?thesis by auto
qed

text \<open>
  The theorem in the empty graph: \<open>x\<close> depending on the list of \<open>a\<close> and \<open>b\<close>, and
  on the single \<open>a\<close>.
\<close>

theorem dependency_registers_witness:
  "fn_id task_x \<notin> fn_id ` set (declared (Many [task_a, task_b]))
   \<and> dependency task_x (Many [task_a, task_b]) empty_graph =
       (Inr task_x,
        \<lparr>nodes = [\<lparr>address = 1, node_identifier = 13, name = ''x'', attributes = [], tasks = 1,
                    dependencies = [11, 12]\<rparr>,
                  \<lparr>address = 2, node_identifier = 11, name = ''a'', attributes = [], tasks = 1,
                    dependencies = []\<rparr>,
                  \<lparr>address = 3, node_identifier = 12, name = ''b'', attributes = [], tasks = 1,
                    dependencies = []\<rparr>]\<rparr>)
   \<and> fst (dependency task_x (Single task_a) empty_graph) = Inr task_x
   \<and> (\<exists>n'. find_node (fn_id task_x) (snd (dependency task_x (Many [task_a, task_b]) empty_graph)) = Some n'
          \<and> set (dependencies n') =
              set (dependencies (fst (add_and_get_node task_x empty_graph)))
                \<union> fn_id ` set (declared (Many [task_a, task_b])))"
proof -
  have h: "fn_id task_x \<notin> fn_id ` set (declared (Many [task_a, task_b]))"
    by (simp add: task_x_def task_a_def task_b_def)
  have h1: "fn_id task_x \<notin> fn_id ` set (declared (Single task_a))"
    by (simp add: task_x_def task_a_def)
  have run: "dependency task_x (Many [task_a, task_b]) empty_graph =
       (Inr task_x,
        \<lparr>nodes = [\<lparr>address = 1, node_identifier = 13, name = ''x'', attributes = [], tasks = 1,
                    dependencies = [11, 12]\<rparr>,
                  \<lparr>address = 2, node_identifier = 11, name = ''a'', attributes = [], tasks = 1,
                    dependencies = []\<rparr>,
                  \<lparr>address = 3, node_identifier = 12, name = ''b'', attributes = [], tasks = 1,
                    dependencies = []\<rparr>]\<rparr>)"
    by (simp add: dependency_def add_and_get_node_def find_node_def new_node_def
        fresh_address_def add_dependency_def update_node_def task_x_def task_a_def task_b_def
        empty_graph_def)
  from dependency_registers [OF h, of empty_graph] dependency_registers [OF h1, of empty_graph]
    h run show ?thesis by simp
qed

text \<open>
  Claim C2 says that declaring that \<open>X\<close> depends on \<open>X\<close> raises
  \<open>SelfDependencyError\<close> and leaves the graph unchanged. The decorator registers the
  Node of \<open>f\<close> before its loop compares \<open>f\<close> with the dependencies, and raises
  \<open>ValueError\<close>: in the empty graph the failed declaration of \<open>x\<close> on itself
  registers \<open>x\<close>, and the failed declaration of \<open>x\<close> on \<open>a\<close> and \<open>x\<close> also
  registers \<open>a\<close> and adds the dependency of \<open>x\<close> on \<open>a\<close>.
\<close>

theorem self_dependency_changes_graph:
  "dependency task_x (Single task_x) empty_graph =
     (Inl (ValueError ''A function cannot depend on itself.''),
      \<lparr>nodes = [\<lparr>address = 1, node_identifier = 13, name = ''x'', attributes = [], tasks = 1,
                  dependencies = []\<rparr>]\<rparr>)
   \<and> snd (dependency task_x (Single task_x) empty_graph) \<noteq> empty_graph
   \<and> dependency task_x (Many [task_a, task_x]) empty_graph =
     (Inl (ValueError ''A function cannot depend on itself.''),
      \<lparr>nodes = [\<lparr>address = 1, node_identifier = 13, name = ''x'', attributes = [], tasks = 1,
                  dependencies = [11]\<rparr>,
                \<lparr>address = 2, node_identifier = 11, name = ''a'', attributes = [], tasks = 1,
                  dependencies = []\<rparr>]\<rparr>)"
  by (simp add: dependency_def add_and_get_node_def find_node_def new_node_def
      fresh_address_def add_dependency_def update_node_def task_x_def task_a_def
      empty_graph_def)

text \<open>
  Claim C2, amended. Declaring that \<open>f\<close> depends on task definitions one of which is
  \<open>f\<close> raises \<open>ValueError\<close> with the message that a function cannot depend on
  itself. The graph is left as the declaration of the dependencies listed before the
  first occurrence of \<open>f\<close> leaves it, a declaration that returns: \<open>f\<close> is registered,
  and the dependency set of its Node is the one it had together with the Nodes of those
  earlier dependencies. So no dependency of \<open>f\<close> on itself is added, and nothing from
  the occurrence of \<open>f\<close> on is processed.
\<close>

theorem self_dependency_raises:
  assumes "fn_id f \<in> fn_id ` set (declared deps)"
  shows "dependency f deps g =
      (Inl (ValueError ''A function cannot depend on itself.''),
       snd (dependency f (Many (takeWhile (\<lambda>d. fn_id d \<noteq> fn_id f) (declared deps))) g))
    \<and> fst (dependency f (Many (takeWhile (\<lambda>d. fn_id d \<noteq> fn_id f) (declared deps))) g) = Inr f
    \<and> (\<exists>n'. find_node (fn_id f) (snd (dependency f deps g)) = Some n'
          \<and> set (dependencies n') =
              set (dependencies (fst (add_and_get_node f g)))
                \<union> fn_id ` set (takeWhile (\<lambda>d. fn_id d \<noteq> fn_id f) (declared deps)))"
proof -
  let ?before = "takeWhile (\<lambda>d. fn_id d \<noteq> fn_id f) (declared deps)"
  obtain node g1 where ag: "add_and_get_node f g = (node, g1)" by (cases "add_and_get_node f g")
  have id: "node_identifier node = fn_id f"
    using add_and_get_node_identifier[of f g] ag by simp
  have found: "find_node (fn_id f) g1 = Some node"
    using add_and_get_node_found[of f g] ag by simp
  have notin: "fn_id f \<notin> fn_id ` set ?before"
    by (auto dest: set_takeWhileD)
  from dependency_loop_returns[OF notin id, of g1] obtain g' where
    run: "dependency_loop f node ?before g1 = (None, g')"
    and deps: "\<forall>n. find_node (fn_id f) g1 = Some n \<longrightarrow>
           (\<exists>n'. find_node (fn_id f) g' = Some n'
              \<and> set (dependencies n') = set (dependencies n) \<union> fn_id ` set ?before)"
    by blast
  have prefix: "dependency f (Many ?before) g = (Inr f, g')"
    using ag run by (simp add: dependency_def)
  have "dependency_loop f node (declared deps) g1 =
      (Some (ValueError ''A function cannot depend on itself.''), g')"
    using dependency_loop_raises[OF assms id, of g1] run by simp
  then have whole: "dependency f deps g =
      (Inl (ValueError ''A function cannot depend on itself.''), g')"
    using ag by (simp add: dependency_def declared_eq)
  from deps found obtain n' where "find_node (fn_id f) g' = Some n'"
    and "set (dependencies n') = set (dependencies node) \<union> fn_id ` set ?before" by blast
  with whole prefix ag show ?thesis by auto
qed

text \<open>The theorem at \<open>x\<close> declared to depend on \<open>a\<close>, \<open>x\<close> and \<open>b\<close>.\<close>

theorem self_dependency_raises_witness:
  "fn_id task_x \<in> fn_id ` set (declared (Many [task_a, task_x, task_b]))
   \<and> takeWhile (\<lambda>d. fn_id d \<noteq> fn_id task_x) (declared (Many [task_a, task_x, task_b])) = [task_a]
   \<and> dependency task_x (Many [task_a, task_x, task_b]) empty_graph =
      (Inl (ValueError ''A function cannot depend on itself.''),
       snd (dependency task_x (Many [task_a]) empty_graph))
   \<and> fst (dependency task_x (Many [task_a]) empty_graph) = Inr task_x"
proof -
  have h: "fn_id task_x \<in> fn_id ` set (declared (Many [task_a, task_x, task_b]))" by simp
  have t: "takeWhile (\<lambda>d. fn_id d \<noteq> fn_id task_x) (declared (Many [task_a, task_x, task_b])) = [task_a]"
    by (simp add: task_x_def task_a_def)
  from self_dependency_raises [OF h, of empty_graph] h t show ?thesis by simp
qed

section \<open>Attributes that are not scheduler directives\<close>

text \<open>
  Storing a value under a key that does not start with \<open>--\<close> changes no line that the
  loop over the attributes gives; and the Node that \<open>conda\<close> leaves in the graph.
\<close>

lemma attribute_lines_unprefixed_key:
  assumes "take 2 k \<noteq> ''--''"
  shows "attribute_lines (setitem node k v) (map fst (attributes (setitem node k v))) lines
       = attribute_lines node (map fst (attributes node)) lines"
proof -
  let ?n = "setitem node k v"
  have keys: "filter (\<lambda>key. take 2 key = ''--'') (map fst (attributes ?n))
            = filter (\<lambda>key. take 2 key = ''--'') (map fst (attributes node))"
    using assms by (simp add: setitem_def AList.update_keys)
  have vals: "\<And>key. take 2 key = ''--'' \<Longrightarrow>
      map_of (attributes ?n) key = map_of (attributes node) key"
    using assms by (auto simp: setitem_def AList.update_conv')
  have "attribute_lines ?n (map fst (attributes ?n)) lines =
     Inr (lines @ map (\<lambda>key. ''#SBATCH '' @ key @ the (map_of (attributes ?n) key))
                      (filter (\<lambda>key. take 2 key = ''--'') (map fst (attributes ?n))))"
    by (rule attribute_lines_total) simp
  also have "map (\<lambda>key. ''#SBATCH '' @ key @ the (map_of (attributes ?n) key))
                      (filter (\<lambda>key. take 2 key = ''--'') (map fst (attributes ?n)))
     = map (\<lambda>key. ''#SBATCH '' @ key @ the (map_of (attributes node) key))
                      (filter (\<lambda>key. take 2 key = ''--'') (map fst (attributes node)))"
    unfolding keys using vals by (auto intro!: map_cong)
  also have "Inr (lines @ \<dots>) = attribute_lines node (map fst (attributes node)) lines"
    by (rule attribute_lines_total[symmetric]) simp
  finally show ?thesis .
qed

lemma conda_node:
  "fst (conda f environment g) = f \<and>
   find_node (fn_id f) (snd (conda f environment g))
     = Some (setitem (fst (add_and_get_node f g)) ''conda'' environment)"
proof -
  obtain node g1 where ag: "add_and_get_node f g = (node, g1)" by (cases "add_and_get_node f g")
  have id: "node_identifier node = fn_id f"
    using add_and_get_node_identifier[of f g] ag by simp
  have found: "find_node (fn_id f) g1 = Some node"
    using add_and_get_node_found[of f g] ag by simp
  have "find_node (fn_id f) (update_node (fn_id f) (\<lambda>n. setitem n ''conda'' environment) g1)
      = Some (setitem node ''conda'' environment)"
    using found by (simp add: find_node_update_node setitem_fields)
  with ag id show ?thesis by (simp add: conda_def)
qed

section \<open>The run of execute\<close>

text \<open>
  The calls that \<open>execute\<close> has made when its statements up to the pruning, and the
  statements that stage the submission, return or raise.
\<close>

lemma invoke_Returned: "invoke c f w = Returned w' \<Longrightarrow> calls w' = calls w @ [c]"
  by (auto simp: invoke_def split: outcome.splits)

lemma invoke_Raised: "invoke c f w = Raised e w' \<Longrightarrow> calls w' = calls w @ [c]"
  by (auto simp: invoke_def split: outcome.splits)

lemma calls_create_directories:
  "calls (create_directories E dir w) = calls w @ [Makedirs dir, Mkdtemp dir]"
  by (simp add: create_directories_def Let_def)

lemma preparation_calls:
  "(\<exists>w6. preparation E dir w = Returned w6
        \<and> calls w6 = calls w @ [Makedirs dir, Mkdtemp dir, Program, ApplyDefaults,
             GeneratePostconditions (workdir E dir w), Prune])
   \<or> (\<exists>e w6 k. preparation E dir w = Raised e w6 \<and> 3 \<le> k \<and> k \<le> 6
        \<and> calls w6 = calls w @ take k [Makedirs dir, Mkdtemp dir, Program, ApplyDefaults,
             GeneratePostconditions (workdir E dir w), Prune])"
proof -
  let ?d = "workdir E dir w"
  let ?w2 = "create_directories E dir w"
  let ?full = "[Makedirs dir, Mkdtemp dir, Program, ApplyDefaults, GeneratePostconditions ?d, Prune]"
  let ?prog = "\<lambda>w. case program E (workflow w) of Inl e \<Rightarrow> Raised e w | Inr prog \<Rightarrow> Returned w"
  note c2 = calls_create_directories[of E dir w]
  show ?thesis
  proof (cases "invoke Program ?prog ?w2")
    case (Raised e w3)
    then have "preparation E dir w = Raised e w3" by (simp add: preparation_def Let_def)
    moreover have "calls w3 = calls w @ take 3 ?full"
      using invoke_Raised[OF Raised] c2 by simp
    ultimately show ?thesis by (intro disjI2 exI[of _ e] exI[of _ w3] exI[of _ 3]) simp
  next
    case (Returned w3)
    have c3: "calls w3 = calls w @ take 3 ?full" using invoke_Returned[OF Returned] c2 by simp
    show ?thesis
    proof (cases "invoke ApplyDefaults (apply_defaults E) w3")
      case (Raised e w4)
      with Returned have "preparation E dir w = Raised e w4" by (simp add: preparation_def Let_def)
      moreover have "calls w4 = calls w @ take 4 ?full"
        using invoke_Raised[OF Raised] c3 by simp
      ultimately show ?thesis by (intro disjI2 exI[of _ e] exI[of _ w4] exI[of _ 4]) simp
    next
      case r4: (Returned w4)
      have c4: "calls w4 = calls w @ take 4 ?full" using invoke_Returned[OF r4] c3 by simp
      show ?thesis
      proof (cases "invoke (GeneratePostconditions ?d) (generate_postconditions E ?d) w4")
        case (Raised e w5)
        with Returned r4 have "preparation E dir w = Raised e w5"
          by (simp add: preparation_def Let_def)
        moreover have "calls w5 = calls w @ take 5 ?full"
          using invoke_Raised[OF Raised] c4 by simp
        ultimately show ?thesis by (intro disjI2 exI[of _ e] exI[of _ w5] exI[of _ 5]) simp
      next
        case r5: (Returned w5)
        have c5: "calls w5 = calls w @ take 5 ?full" using invoke_Returned[OF r5] c4 by simp
        show ?thesis
        proof (cases "invoke Prune (prune E) w5")
          case (Raised e w6)
          with Returned r4 r5 have "preparation E dir w = Raised e w6"
            by (simp add: preparation_def Let_def)
          moreover have "calls w6 = calls w @ take 6 ?full"
            using invoke_Raised[OF Raised] c5 by simp
          ultimately show ?thesis by (intro disjI2 exI[of _ e] exI[of _ w6] exI[of _ 6]) simp
        next
          case r6: (Returned w6)
          with Returned r4 r5 have "preparation E dir w = Returned w6"
            by (simp add: preparation_def Let_def)
          moreover have "calls w6 = calls w @ ?full"
            using invoke_Returned[OF r6] c5 by simp
          ultimately show ?thesis by (intro disjI1 exI[of _ w6]) simp
        qed
      qed
    qed
  qed
qed

lemma preparation_Returned:
  "preparation E dir w = Returned w6 \<Longrightarrow>
   calls w6 = calls w @ [Makedirs dir, Mkdtemp dir, Program, ApplyDefaults,
             GeneratePostconditions (workdir E dir w), Prune]"
  using preparation_calls[of E dir w] by auto

lemma staging_calls:
  "(\<exists>w9. staging E d w = Returned w9
        \<and> calls w9 = calls w @ [GenerateExecutables d, GenerateMetadata d, PrepareSubmission d])
   \<or> (\<exists>e w9 k. staging E d w = Raised e w9 \<and> 1 \<le> k \<and> k \<le> 3
        \<and> calls w9 = calls w @ take k [GenerateExecutables d, GenerateMetadata d, PrepareSubmission d])"
proof (cases "invoke (GenerateExecutables d) (generate_executables E d) w")
  case (Raised e w7)
  then have "staging E d w = Raised e w7" by (simp add: staging_def)
  moreover have "calls w7 = calls w @ take 1 [GenerateExecutables d, GenerateMetadata d, PrepareSubmission d]"
    using invoke_Raised[OF Raised] by simp
  ultimately show ?thesis by (intro disjI2 exI[of _ e] exI[of _ w7] exI[of _ 1]) simp
next
  case (Returned w7)
  have c7: "calls w7 = calls w @ [GenerateExecutables d]" using invoke_Returned[OF Returned] .
  show ?thesis
  proof (cases "invoke (GenerateMetadata d) (generate_metadata E d) w7")
    case (Raised e w8)
    with Returned have "staging E d w = Raised e w8" by (simp add: staging_def)
    moreover have "calls w8 = calls w @ take 2 [GenerateExecutables d, GenerateMetadata d, PrepareSubmission d]"
      using invoke_Raised[OF Raised] c7 by simp
    ultimately show ?thesis by (intro disjI2 exI[of _ e] exI[of _ w8] exI[of _ 2]) simp
  next
    case r8: (Returned w8)
    have c8: "calls w8 = calls w @ [GenerateExecutables d, GenerateMetadata d]"
      using invoke_Returned[OF r8] c7 by simp
    show ?thesis
    proof (cases "invoke (PrepareSubmission d) (prepare_submission E d) w8")
      case (Raised e w9)
      with Returned r8 have "staging E d w = Raised e w9" by (simp add: staging_def)
      moreover have "calls w9 = calls w @ take 3 [GenerateExecutables d, GenerateMetadata d, PrepareSubmission d]"
        using invoke_Raised[OF Raised] c8 by simp
      ultimately show ?thesis by (intro disjI2 exI[of _ e] exI[of _ w9] exI[of _ 3]) simp
    next
      case r9: (Returned w9)
      with Returned r8 have "staging E d w = Returned w9" by (simp add: staging_def)
      moreover have "calls w9 = calls w @ [GenerateExecutables d, GenerateMetadata d, PrepareSubmission d]"
        using invoke_Returned[OF r9] c8 by simp
      ultimately show ?thesis by (intro disjI1 exI[of _ w9]) simp
    qed
  qed
qed

lemma staging_Returned:
  "staging E d w = Returned w9 \<Longrightarrow>
   calls w9 = calls w @ [GenerateExecutables d, GenerateMetadata d, PrepareSubmission d]"
  using staging_calls[of E d w] by auto

text \<open>What \<open>shutil.rmtree\<close> leaves, and when \<open>submit\<close> raises.\<close>

lemma rmtree_removes:
  "d \<notin> set (dirs (rmtree d fs))"
  "filter (\<lambda>(p, content). inside d p) (files (rmtree d fs)) = []"
  by (auto simp: rmtree_def filter_empty_conv)

lemma remove_directory_fields:
  "workflow (remove_directory d w) = workflow w"
  "stdout (remove_directory d w) = stdout w"
  "calls (remove_directory d w) = calls w @ [Rmtree d]"
  "disk (remove_directory d w) = rmtree d (disk w)"
  by (simp_all add: remove_directory_def)

lemma submit_Raised:
  "submit E d w = Raised e w' \<Longrightarrow>
   e = Exception ''Failed to submit pipeline.''
   \<and> fst (os_system E (''bash '' @ d @ ''/pipeline'') w) \<noteq> 0
   \<and> w' = snd (os_system E (''bash '' @ d @ ''/pipeline'') w)"
  by (auto simp: submit_def Let_def split: prod.splits if_splits)

lemma all_done_fields:
  "program all_done = (\<lambda>g. Inr (nodes g))" "apply_defaults all_done = Returned"
  "generate_postconditions all_done = snapshot_postconditions (\<lambda>n fs. True)"
  "prune all_done = prune_snapshot" "abspath all_done = (\<lambda>p. p)"
  "mkdtemp_name all_done = (\<lambda>d fs. d @ ''/tmp0'')"
  by (simp_all add: all_done_def idle_def)

lemma failing_submission_fields:
  "program failing_submission = (\<lambda>g. Inr (nodes g))" "apply_defaults failing_submission = Returned"
  "generate_postconditions failing_submission = (\<lambda>d. Returned)"
  "generate_executables failing_submission = (\<lambda>d. Returned)"
  "generate_metadata failing_submission = (\<lambda>d. Returned)"
  "prune failing_submission = Returned" "abspath failing_submission = (\<lambda>p. p)"
  "mkdtemp_name failing_submission = (\<lambda>d fs. d @ ''/tmp0'')"
  "os_system failing_submission = (\<lambda>c w. (1, w))"
  "generate_before failing_submission = (\<lambda>n. [])" "generate_after failing_submission = (\<lambda>n. [])"
  "executable_name failing_submission = (\<lambda>n. str (int (address n)) @ ''.code'')"
  by (simp_all add: failing_submission_def idle_def)

text \<open>
  Claim C3. If the statements of \<open>execute\<close> up to \<open>workflow.prune()\<close> return and
  leave no node in the workflow, then \<open>execute\<close> returns without an exception; after
  the pruning it makes the one call \<open>shutil.rmtree(directory)\<close>, so the executables,
  the metadata, the task files and the submission script are not generated and
  \<open>submit\<close> is not called; the disk is the one the pruning left with the working
  directory and everything inside it removed, and nothing is printed.
\<close>

theorem nothing_to_do:
  assumes prep: "preparation E dir w = Returned w6"
    and none: "nodes (workflow w6) = []"
  shows "execute E dir w = Returned (remove_directory (workdir E dir w) w6)
    \<and> calls (remove_directory (workdir E dir w) w6) =
        calls w @ [Makedirs dir, Mkdtemp dir, Program, ApplyDefaults,
                   GeneratePostconditions (workdir E dir w), Prune, Rmtree (workdir E dir w)]
    \<and> disk (remove_directory (workdir E dir w) w6) = rmtree (workdir E dir w) (disk w6)
    \<and> workdir E dir w \<notin> set (dirs (disk (remove_directory (workdir E dir w) w6)))
    \<and> filter (\<lambda>(p, content). inside (workdir E dir w) p)
         (files (disk (remove_directory (workdir E dir w) w6))) = []
    \<and> stdout (remove_directory (workdir E dir w) w6) = stdout w6"
proof -
  have run: "execute E dir w = Returned (remove_directory (workdir E dir w) w6)"
    using prep none by (simp add: execute_def Let_def)
  from preparation_Returned[OF prep] run show ?thesis
    by (simp add: remove_directory_fields rmtree_removes)
qed

text \<open>
  The theorem at the example with collaborators for which every postcondition holds.
\<close>

theorem nothing_to_do_witness:
  "(\<exists>w6. preparation all_done ''.workflows'' (start_world abc) = Returned w6
         \<and> nodes (workflow w6) = []
         \<and> execute all_done ''.workflows'' (start_world abc)
             = Returned (remove_directory ''.workflows/tmp0'' w6))
   \<and> calls (world_of (execute all_done ''.workflows'' (start_world abc))) =
       [Makedirs ''.workflows'', Mkdtemp ''.workflows'', Program, ApplyDefaults,
        GeneratePostconditions ''.workflows/tmp0'', Prune, Rmtree ''.workflows/tmp0'']
   \<and> disk (world_of (execute all_done ''.workflows'' (start_world abc)))
       = \<lparr>files = [], dirs = [''.workflows'']\<rparr>"
proof -
  let ?w6 = "\<lparr>workflow = \<lparr>nodes = []\<rparr>,
     disk = \<lparr>files = [], dirs = [''.workflows/tmp0'', ''.workflows'']\<rparr>,
     stdout = [], snapshot = [(1, True), (2, True), (3, True)], evaluated = [1, 2, 3],
     calls = [Makedirs ''.workflows'', Mkdtemp ''.workflows'', Program, ApplyDefaults,
        GeneratePostconditions ''.workflows/tmp0'', Prune]\<rparr>"
  have d: "\<And>w. workdir all_done ''.workflows'' w = ''.workflows/tmp0''"
    by (simp add: workdir_def all_done_fields)
  have prep: "preparation all_done ''.workflows'' (start_world abc) = Returned ?w6"
    by (simp add: preparation_def d create_directories_def Let_def all_done_fields invoke_def
        start_world_def empty_disk_def mkdir_def abc_def snapshot_postconditions_def
        prune_snapshot_def satisfied_def node_A_def node_B_def node_C_def)
  have none: "nodes (workflow ?w6) = []" by simp
  from nothing_to_do [OF prep none] show ?thesis
    unfolding d using prep
    by (simp add: remove_directory_def rmtree_def inside_def start_world_def)
qed

text \<open>
  Claim C8. If \<open>execute\<close> reaches the submission and \<open>submit\<close> raises an exception,
  then \<open>execute\<close> returns: it prints the exception, which is the failure of the
  pipeline submission, and removes the working directory with everything inside it.
\<close>

theorem submission_failure_is_caught:
  assumes prep: "preparation E dir w = Returned w6"
    and some: "nodes (workflow w6) \<noteq> []"
    and staged: "staging E (workdir E dir w) w6 = Returned w9"
    and raised: "submit E (workdir E dir w) w9 = Raised e w10"
  shows "execute E dir w =
      Returned (remove_directory (workdir E dir w)
                  (print_line (message e) (w10\<lparr>calls := calls w9 @ [Submit (workdir E dir w)]\<rparr>)))
    \<and> message e = ''Failed to submit pipeline.''
    \<and> stdout (world_of (execute E dir w)) = stdout w10 @ [''Failed to submit pipeline.'']
    \<and> calls (world_of (execute E dir w)) =
        calls w @ [Makedirs dir, Mkdtemp dir, Program, ApplyDefaults,
                   GeneratePostconditions (workdir E dir w), Prune,
                   GenerateExecutables (workdir E dir w), GenerateMetadata (workdir E dir w),
                   PrepareSubmission (workdir E dir w), Submit (workdir E dir w),
                   Rmtree (workdir E dir w)]
    \<and> disk (world_of (execute E dir w)) = rmtree (workdir E dir w) (disk w10)
    \<and> workdir E dir w \<notin> set (dirs (disk (world_of (execute E dir w))))
    \<and> filter (\<lambda>(p, content). inside (workdir E dir w) p)
         (files (disk (world_of (execute E dir w)))) = []"
proof -
  let ?d = "workdir E dir w"
  have inv: "invoke (Submit ?d) (submit E ?d) w9 = Raised e (w10\<lparr>calls := calls w9 @ [Submit ?d]\<rparr>)"
    using raised by (simp add: invoke_def)
  have run: "execute E dir w =
      Returned (remove_directory ?d (print_line (message e) (w10\<lparr>calls := calls w9 @ [Submit ?d]\<rparr>)))"
    using prep some staged inv by (simp add: execute_def Let_def)
  from submit_Raised[OF raised] have msg: "message e = ''Failed to submit pipeline.''" by simp
  have c9: "calls w9 = calls w @ [Makedirs dir, Mkdtemp dir, Program, ApplyDefaults,
                   GeneratePostconditions ?d, Prune,
                   GenerateExecutables ?d, GenerateMetadata ?d, PrepareSubmission ?d]"
    using preparation_Returned[OF prep] staging_Returned[OF staged] by simp
  show ?thesis
    unfolding run using msg c9
    by (simp add: remove_directory_fields rmtree_removes print_line_def)
qed

text \<open>
  The theorem at the example with an operating system whose \<open>os.system\<close> gives the
  return code 1.
\<close>

theorem submission_failure_is_caught_witness:
  "(\<exists>w6 w9 e w10.
       preparation failing_submission ''.workflows'' (start_world abc) = Returned w6
     \<and> nodes (workflow w6) \<noteq> []
     \<and> staging failing_submission ''.workflows/tmp0'' w6 = Returned w9
     \<and> submit failing_submission ''.workflows/tmp0'' w9 = Raised e w10)
   \<and> (\<exists>w. execute failing_submission ''.workflows'' (start_world abc) = Returned w
          \<and> stdout w = [''Failed to submit pipeline.'']
          \<and> disk w = \<lparr>files = [], dirs = [''.workflows'']\<rparr>
          \<and> calls w = [Makedirs ''.workflows'', Mkdtemp ''.workflows'', Program, ApplyDefaults,
                GeneratePostconditions ''.workflows/tmp0'', Prune,
                GenerateExecutables ''.workflows/tmp0'', GenerateMetadata ''.workflows/tmp0'',
                PrepareSubmission ''.workflows/tmp0'', Submit ''.workflows/tmp0'',
                Rmtree ''.workflows/tmp0''])"
proof -
  let ?E = failing_submission
  let ?w6 = "\<lparr>workflow = abc,
     disk = \<lparr>files = [], dirs = [''.workflows/tmp0'', ''.workflows'']\<rparr>,
     stdout = [], snapshot = [], evaluated = [],
     calls = [Makedirs ''.workflows'', Mkdtemp ''.workflows'', Program, ApplyDefaults,
        GeneratePostconditions ''.workflows/tmp0'', Prune]\<rparr>"
  have d: "\<And>w. workdir ?E ''.workflows'' w = ''.workflows/tmp0''"
    by (simp add: workdir_def failing_submission_fields)
  have prep: "preparation ?E ''.workflows'' (start_world abc) = Returned ?w6"
    by (simp add: preparation_def d create_directories_def Let_def failing_submission_fields
        invoke_def start_world_def empty_disk_def mkdir_def)
  have some: "nodes (workflow ?w6) \<noteq> []" by (simp add: abc_def)
  have "\<exists>w9. staging ?E ''.workflows/tmp0'' ?w6 = Returned w9
         \<and> stdout w9 = [] \<and> dirs (disk w9) = [''.workflows/tmp0'', ''.workflows'']
         \<and> (\<forall>p\<in>fst ` set (files (disk w9)). inside ''.workflows/tmp0'' p)"
    by (simp add: staging_def invoke_def failing_submission_fields prepare_submission_def Let_def
        generate_task_files_def generate_submission_script_def task_file_lines_def
        add_default_attributes_def default_attributes_def setitem_def getitem_def
        abc_def node_A_def node_B_def node_C_def script_start_def write_file_def
        node_task_filename_def str_def str_nat.simps digit_char_def inside_def)
  then obtain w9 where staged: "staging ?E ''.workflows/tmp0'' ?w6 = Returned w9"
    and out9: "stdout w9 = []" and dirs9: "dirs (disk w9) = [''.workflows/tmp0'', ''.workflows'']"
    and files9: "\<forall>p\<in>fst ` set (files (disk w9)). inside ''.workflows/tmp0'' p" by blast
  have raised: "submit ?E ''.workflows/tmp0'' w9 = Raised (Exception ''Failed to submit pipeline.'') w9"
    by (simp add: submit_def failing_submission_fields)
  have empty: "filter (\<lambda>(p, content). \<not> inside ''.workflows/tmp0'' p) (files (disk w9)) = []"
    using files9 by (auto simp: filter_empty_conv)
  note inst = submission_failure_is_caught [OF prep some, unfolded d, OF staged raised]
  have run: "execute ?E ''.workflows'' (start_world abc) =
      Returned (remove_directory ''.workflows/tmp0''
                  (print_line (message (Exception ''Failed to submit pipeline.''))
                     (w9\<lparr>calls := calls w9 @ [Submit ''.workflows/tmp0'']\<rparr>)))"
    by (rule inst[THEN conjunct1])
  have trace: "calls (world_of (execute ?E ''.workflows'' (start_world abc))) =
        calls (start_world abc) @ [Makedirs ''.workflows'', Mkdtemp ''.workflows'', Program, ApplyDefaults,
                   GeneratePostconditions ''.workflows/tmp0'', Prune,
                   GenerateExecutables ''.workflows/tmp0'', GenerateMetadata ''.workflows/tmp0'',
                   PrepareSubmission ''.workflows/tmp0'', Submit ''.workflows/tmp0'',
                   Rmtree ''.workflows/tmp0'']"
    by (rule inst[THEN conjunct2, THEN conjunct2, THEN conjunct2, THEN conjunct1])
  let ?w = "remove_directory ''.workflows/tmp0''
                  (print_line (message (Exception ''Failed to submit pipeline.''))
                     (w9\<lparr>calls := calls w9 @ [Submit ''.workflows/tmp0'']\<rparr>))"
  have base: "\<not> inside ''.workflows/tmp0'' ''.workflows''" by (simp add: inside_def)
  have a: "stdout ?w = [''Failed to submit pipeline.'']"
    by (simp add: remove_directory_def print_line_def out9)
  have b: "disk ?w = \<lparr>files = [], dirs = [''.workflows'']\<rparr>"
    using empty by (simp add: remove_directory_def print_line_def rmtree_def dirs9 base)
  have c: "calls ?w = [Makedirs ''.workflows'', Mkdtemp ''.workflows'', Program, ApplyDefaults,
                GeneratePostconditions ''.workflows/tmp0'', Prune,
                GenerateExecutables ''.workflows/tmp0'', GenerateMetadata ''.workflows/tmp0'',
                PrepareSubmission ''.workflows/tmp0'', Submit ''.workflows/tmp0'',
                Rmtree ''.workflows/tmp0'']"
    using trace run by (simp add: start_world_def)
  from prep some staged raised run a b c show ?thesis by blast
qed

section \<open>The order of the postconditions and the pruning\<close>




lemma workflow_evaluate_postconditions:
  "workflow (evaluate_postconditions post ns w) = workflow w"
  by (induction ns arbitrary: w) simp_all





section \<open>The text of the files\<close>

text \<open>
  One passage of the loop of \<open>generate_submission_script\<close> with the indices that its
  flag holds, and the lines and the job identifiers that the whole loop leaves: one line
  and one identifier for each task, in the order of the tasks.
\<close>

lemma submission_loop_step:
  assumes run: "submission_loop dir k (task # rest) st = Inr st'"
  shows "\<exists>flag.
       ((dependencies task = [] \<and> flag = [])
        \<or> (dependencies task \<noteq> [] \<and>
            (\<exists>indices. flag = ''--dependency=afterok''
                  @ concat (map (\<lambda>j. '':$t'' @ str (int j)) indices) @ '' ''
               \<and> map Some indices
                   = map ((tasks_dict st)(node_identifier task \<mapsto> k)) (dependencies task))))
     \<and> submission_loop dir (Suc k) rest
       \<lparr>script_lines = script_lines st
          @ [''t'' @ str (int k) @ ''=$(sbatch '' @ flag @ dir @ ''/'' @ node_task_filename task @ '')''],
        job_identifiers = job_identifiers st @ ''$t'' @ str (int k) @ nl,
        tasks_dict = (tasks_dict st)(node_identifier task \<mapsto> k)\<rparr> = Inr st'"
proof (cases "dependencies task = []")
  case True
  with run show ?thesis by (intro exI[of _ "[]"]) (simp add: Let_def)
next
  case False
  show ?thesis
  proof (cases "dependency_flag ((tasks_dict st)(node_identifier task \<mapsto> k))
                  (dependencies task) ''--dependency=afterok''")
    case (Inl e)
    with run False show ?thesis by (simp add: Let_def)
  next
    case (Inr flag)
    from dependency_flag_indices[OF Inr] obtain indices where
      shape: "flag = ''--dependency=afterok'' @ concat (map (\<lambda>j. '':$t'' @ str (int j)) indices)"
      and looked: "map Some indices
          = map ((tasks_dict st)(node_identifier task \<mapsto> k)) (dependencies task)"
      by blast
    have a: "dependencies task \<noteq> [] \<and>
            (\<exists>indices. flag @ '' '' = ''--dependency=afterok''
                  @ concat (map (\<lambda>j. '':$t'' @ str (int j)) indices) @ '' ''
               \<and> map Some indices
                   = map ((tasks_dict st)(node_identifier task \<mapsto> k)) (dependencies task))"
      using False shape looked by auto
    have b: "submission_loop dir (Suc k) rest
       \<lparr>script_lines = script_lines st
          @ [''t'' @ str (int k) @ ''=$(sbatch '' @ (flag @ '' '') @ dir @ ''/''
               @ node_task_filename task @ '')''],
        job_identifiers = job_identifiers st @ ''$t'' @ str (int k) @ nl,
        tasks_dict = (tasks_dict st)(node_identifier task \<mapsto> k)\<rparr> = Inr st'"
      using run False Inr by (simp add: Let_def)
    from a b show ?thesis by blast
  qed
qed

lemma submission_loop_text:
  assumes "submission_loop dir (length done) xs st = Inr st'"
    and "\<forall>d j. tasks_dict st d = Some j \<longrightarrow> j < length done \<and> node_identifier (done ! j) = d"
  shows "\<exists>flags. length flags = length xs
     \<and> script_lines st' = script_lines st
          @ map (\<lambda>i. ''t'' @ str (int (length done + i)) @ ''=$(sbatch '' @ flags ! i @ dir @ ''/''
                       @ node_task_filename (xs ! i) @ '')'') [0..<length xs]
     \<and> job_identifiers st' = job_identifiers st
          @ concat (map (\<lambda>i. ''$t'' @ str (int (length done + i)) @ nl) [0..<length xs])
     \<and> (\<forall>i<length xs.
           (dependencies (xs ! i) = [] \<and> flags ! i = [])
         \<or> (dependencies (xs ! i) \<noteq> [] \<and>
             (\<exists>indices. flags ! i = ''--dependency=afterok''
                   @ concat (map (\<lambda>j. '':$t'' @ str (int j)) indices) @ '' ''
                \<and> length indices = length (dependencies (xs ! i))
                \<and> (\<forall>m<length indices. indices ! m \<le> length done + i
                      \<and> node_identifier ((done @ xs) ! (indices ! m)) = dependencies (xs ! i) ! m))))"
  using assms
proof (induction xs arbitrary: "done" st)
  case Nil
  then show ?case by simp
next
  case (Cons x xs)
  let ?k = "length done"
  let ?t1 = "(tasks_dict st)(node_identifier x \<mapsto> ?k)"
  from submission_loop_step[OF Cons.prems(1)] obtain flag where
    fl: "(dependencies x = [] \<and> flag = [])
        \<or> (dependencies x \<noteq> [] \<and>
            (\<exists>indices. flag = ''--dependency=afterok''
                  @ concat (map (\<lambda>j. '':$t'' @ str (int j)) indices) @ '' ''
               \<and> map Some indices = map ?t1 (dependencies x)))"
    and run: "submission_loop dir (Suc ?k) xs
       \<lparr>script_lines = script_lines st
          @ [''t'' @ str (int ?k) @ ''=$(sbatch '' @ flag @ dir @ ''/'' @ node_task_filename x @ '')''],
        job_identifiers = job_identifiers st @ ''$t'' @ str (int ?k) @ nl,
        tasks_dict = ?t1\<rparr> = Inr st'" by blast
  let ?st1 = "\<lparr>script_lines = script_lines st
          @ [''t'' @ str (int ?k) @ ''=$(sbatch '' @ flag @ dir @ ''/'' @ node_task_filename x @ '')''],
        job_identifiers = job_identifiers st @ ''$t'' @ str (int ?k) @ nl,
        tasks_dict = ?t1\<rparr>"
  have inv1: "\<forall>d j. ?t1 d = Some j \<longrightarrow> j < length (done @ [x]) \<and> node_identifier ((done @ [x]) ! j) = d"
  proof (intro allI impI)
    fix d j assume "?t1 d = Some j"
    then have "(d = node_identifier x \<and> j = ?k) \<or> tasks_dict st d = Some j"
      by (auto split: if_splits)
    then show "j < length (done @ [x]) \<and> node_identifier ((done @ [x]) ! j) = d"
    proof
      assume "d = node_identifier x \<and> j = ?k"
      then show ?thesis by simp
    next
      assume "tasks_dict st d = Some j"
      with Cons.prems(2) have "j < ?k \<and> node_identifier (done ! j) = d" by blast
      then show ?thesis by (simp add: nth_append)
    qed
  qed
  have run': "submission_loop dir (length (done @ [x])) xs ?st1 = Inr st'" using run by simp
  have inv1': "\<forall>d j. tasks_dict ?st1 d = Some j \<longrightarrow>
       j < length (done @ [x]) \<and> node_identifier ((done @ [x]) ! j) = d"
    using inv1 by simp
  from Cons.IH[OF run' inv1'] obtain flags where
    len: "length flags = length xs"
    and lines: "script_lines st' = script_lines ?st1
          @ map (\<lambda>i. ''t'' @ str (int (length (done @ [x]) + i)) @ ''=$(sbatch '' @ flags ! i @ dir @ ''/''
                       @ node_task_filename (xs ! i) @ '')'') [0..<length xs]"
    and jobs: "job_identifiers st' = job_identifiers ?st1
          @ concat (map (\<lambda>i. ''$t'' @ str (int (length (done @ [x]) + i)) @ nl) [0..<length xs])"
    and good: "\<forall>i<length xs.
           (dependencies (xs ! i) = [] \<and> flags ! i = [])
         \<or> (dependencies (xs ! i) \<noteq> [] \<and>
             (\<exists>indices. flags ! i = ''--dependency=afterok''
                   @ concat (map (\<lambda>j. '':$t'' @ str (int j)) indices) @ '' ''
                \<and> length indices = length (dependencies (xs ! i))
                \<and> (\<forall>m<length indices. indices ! m \<le> length (done @ [x]) + i
                      \<and> node_identifier (((done @ [x]) @ xs) ! (indices ! m)) = dependencies (xs ! i) ! m)))"
    by blast
  have first: "(dependencies x = [] \<and> flag = [])
         \<or> (dependencies x \<noteq> [] \<and>
             (\<exists>indices. flag = ''--dependency=afterok''
                   @ concat (map (\<lambda>j. '':$t'' @ str (int j)) indices) @ '' ''
                \<and> length indices = length (dependencies x)
                \<and> (\<forall>m<length indices. indices ! m \<le> ?k
                      \<and> node_identifier ((done @ x # xs) ! (indices ! m)) = dependencies x ! m)))"
  proof (cases "dependencies x = []")
    case True
    with fl show ?thesis by simp
  next
    case False
    with fl obtain indices where
      f: "flag = ''--dependency=afterok'' @ concat (map (\<lambda>j. '':$t'' @ str (int j)) indices) @ '' ''"
      and looked: "map Some indices = map ?t1 (dependencies x)" by blast
    from looked have l: "length indices = length (dependencies x)"
      by (metis length_map)
    have "\<forall>m<length indices. indices ! m \<le> ?k
            \<and> node_identifier ((done @ x # xs) ! (indices ! m)) = dependencies x ! m"
    proof (intro allI impI)
      fix m assume m: "m < length indices"
      with l have m': "m < length (dependencies x)" by simp
      have "map Some indices ! m = map ?t1 (dependencies x) ! m" using looked by simp
      with m m' have "?t1 (dependencies x ! m) = Some (indices ! m)" by simp
      with inv1 have "indices ! m < length (done @ [x])
          \<and> node_identifier ((done @ [x]) ! (indices ! m)) = dependencies x ! m" by blast
      moreover have "indices ! m < length (done @ [x]) \<Longrightarrow>
          (done @ x # xs) ! (indices ! m) = (done @ [x]) ! (indices ! m)"
        by (metis append.assoc append_Cons append_Nil nth_append)
      ultimately show "indices ! m \<le> ?k
            \<and> node_identifier ((done @ x # xs) ! (indices ! m)) = dependencies x ! m" by simp
    qed
    with False f l show ?thesis by blast
  qed
  let ?flags = "flag # flags"
  have a: "length ?flags = length (x # xs)" using len by simp
  have b: "script_lines st' = script_lines st
          @ map (\<lambda>i. ''t'' @ str (int (?k + i)) @ ''=$(sbatch '' @ ?flags ! i @ dir @ ''/''
                       @ node_task_filename ((x # xs) ! i) @ '')'') [0..<length (x # xs)]"
    using lines by (simp add: map_upt_Suc algebra_simps del: upt_Suc)
  have c: "job_identifiers st' = job_identifiers st
          @ concat (map (\<lambda>i. ''$t'' @ str (int (?k + i)) @ nl) [0..<length (x # xs)])"
    using jobs by (simp add: map_upt_Suc algebra_simps del: upt_Suc)
  have d: "\<forall>i<length (x # xs).
           (dependencies ((x # xs) ! i) = [] \<and> ?flags ! i = [])
         \<or> (dependencies ((x # xs) ! i) \<noteq> [] \<and>
             (\<exists>indices. ?flags ! i = ''--dependency=afterok''
                   @ concat (map (\<lambda>j. '':$t'' @ str (int j)) indices) @ '' ''
                \<and> length indices = length (dependencies ((x # xs) ! i))
                \<and> (\<forall>m<length indices. indices ! m \<le> ?k + i
                      \<and> node_identifier ((done @ x # xs) ! (indices ! m))
                          = dependencies ((x # xs) ! i) ! m)))"
  proof (intro allI impI)
    fix i assume i: "i < length (x # xs)"
    show "(dependencies ((x # xs) ! i) = [] \<and> ?flags ! i = [])
         \<or> (dependencies ((x # xs) ! i) \<noteq> [] \<and>
             (\<exists>indices. ?flags ! i = ''--dependency=afterok''
                   @ concat (map (\<lambda>j. '':$t'' @ str (int j)) indices) @ '' ''
                \<and> length indices = length (dependencies ((x # xs) ! i))
                \<and> (\<forall>m<length indices. indices ! m \<le> ?k + i
                      \<and> node_identifier ((done @ x # xs) ! (indices ! m))
                          = dependencies ((x # xs) ! i) ! m)))"
    proof (cases i)
      case 0
      with first show ?thesis by simp
    next
      case (Suc i')
      with i have "i' < length xs" by simp
      with good have "(dependencies (xs ! i') = [] \<and> flags ! i' = [])
         \<or> (dependencies (xs ! i') \<noteq> [] \<and>
             (\<exists>indices. flags ! i' = ''--dependency=afterok''
                   @ concat (map (\<lambda>j. '':$t'' @ str (int j)) indices) @ '' ''
                \<and> length indices = length (dependencies (xs ! i'))
                \<and> (\<forall>m<length indices. indices ! m \<le> length (done @ [x]) + i'
                      \<and> node_identifier (((done @ [x]) @ xs) ! (indices ! m)) = dependencies (xs ! i') ! m)))"
        by blast
      with Suc show ?thesis by simp
    qed
  qed
  from a b c d show ?case by blast
qed

text \<open>
  Claim C10. When \<open>generate_submission_script\<close> returns, the file \<open>pipeline\<close> holds
  exactly this text: the two lines of the header; then one \<open>sbatch\<close> line for every
  task, in the order of \<open>workflow.program()\<close>, made of \<open>t\<close>, the index of the task,
  \<open>=$(sbatch\<close>, the flag of the task, the directory and \<open>node_task_filename\<close> of the
  task; then the command that stores the job identifiers, one for each task. Every line
  ends with a newline. The flag of a task without dependencies is empty; otherwise it is
  \<open>--dependency=afterok\<close> with one index for each dependency, not above the index of
  the task and the index of a task with the identifier of the dependency. When the
  addresses of the Node objects are distinct, \<open>generate_task_files\<close> returns and the
  file under the name in the \<open>sbatch\<close> line of a task that is a node of the workflow
  holds the lines of the task file of that node.
\<close>

theorem submission_script_text:
  assumes prog: "program E wflow = Inr prog"
    and run: "generate_submission_script E wflow dir fs = Inr fs'"
  shows "\<exists>flags. length flags = length prog
    \<and> (\<forall>i<length prog.
          (dependencies (prog ! i) = [] \<and> flags ! i = '''')
        \<or> (dependencies (prog ! i) \<noteq> [] \<and>
            (\<exists>indices. flags ! i = ''--dependency=afterok''
                  @ concat (map (\<lambda>j. '':$t'' @ str (int j)) indices) @ '' ''
               \<and> length indices = length (dependencies (prog ! i))
               \<and> (\<forall>m<length indices. indices ! m \<le> i
                     \<and> node_identifier (prog ! (indices ! m)) = dependencies (prog ! i) ! m))))
    \<and> map_of (files fs') (dir @ ''/pipeline'') =
        Some (concat (map (\<lambda>line. line @ [CHR 0x0A])
                ([''#!/usr/bin/env bash'', ''mkdir -p '' @ dir @ ''/logs'']
                 @ map (\<lambda>i. ''t'' @ str (int i) @ ''=$(sbatch '' @ flags ! i @ dir @ ''/''
                              @ node_task_filename (prog ! i) @ '')'') [0..<length prog]))
              @ ''echo '' @ [CHR 0x22]
              @ concat (map (\<lambda>i. ''$t'' @ str (int i) @ [CHR 0x0A]) [0..<length prog])
              @ [CHR 0x22] @ '' > '' @ dir @ ''/job_identifiers'')
    \<and> (distinct (map address (nodes wflow)) \<longrightarrow>
         (\<forall>fs0. \<exists>fs1. generate_task_files E wflow dir fs0 = Inr fs1
            \<and> (\<forall>i<length prog. prog ! i \<in> set (nodes wflow) \<longrightarrow>
                 (\<exists>lines. task_file_lines E dir (prog ! i) = Inr lines
                    \<and> map_of (files fs1) (dir @ ''/'' @ node_task_filename (prog ! i)) =
                        Some (concat (map (\<lambda>line. line @ [CHR 0x0A]) lines))))))"
proof -
  from run prog obtain st where
    st: "submission_loop dir 0 prog (script_start dir) = Inr st"
    and fs': "fs' = write_file (dir @ ''/pipeline'')
                      (write_lines (script_lines st)
                         @ job_identifiers st @ dq @ '' > '' @ dir @ ''/job_identifiers'')
                      fs"
    by (auto simp: generate_submission_script_def split: sum.splits)
  have st0: "submission_loop dir (length ([]::node list)) prog (script_start dir) = Inr st"
    using st by simp
  have inv: "\<forall>d j. tasks_dict (script_start dir) d = Some j \<longrightarrow>
      j < length ([]::node list) \<and> node_identifier (([]::node list) ! j) = d"
    by (simp add: script_start_def)
  from submission_loop_text[OF st0 inv] obtain flags where
    len: "length flags = length prog"
    and lines: "script_lines st = script_lines (script_start dir)
          @ map (\<lambda>i. ''t'' @ str (int i) @ ''=$(sbatch '' @ flags ! i @ dir @ ''/''
                       @ node_task_filename (prog ! i) @ '')'') [0..<length prog]"
    and jobs: "job_identifiers st = job_identifiers (script_start dir)
          @ concat (map (\<lambda>i. ''$t'' @ str (int i) @ nl) [0..<length prog])"
    and good: "\<forall>i<length prog.
           (dependencies (prog ! i) = [] \<and> flags ! i = [])
         \<or> (dependencies (prog ! i) \<noteq> [] \<and>
             (\<exists>indices. flags ! i = ''--dependency=afterok''
                   @ concat (map (\<lambda>j. '':$t'' @ str (int j)) indices) @ '' ''
                \<and> length indices = length (dependencies (prog ! i))
                \<and> (\<forall>m<length indices. indices ! m \<le> i
                      \<and> node_identifier (prog ! (indices ! m)) = dependencies (prog ! i) ! m)))"
    by auto
  have content: "map_of (files fs') (dir @ ''/pipeline'') =
        Some (concat (map (\<lambda>line. line @ [CHR 0x0A])
                ([''#!/usr/bin/env bash'', ''mkdir -p '' @ dir @ ''/logs'']
                 @ map (\<lambda>i. ''t'' @ str (int i) @ ''=$(sbatch '' @ flags ! i @ dir @ ''/''
                              @ node_task_filename (prog ! i) @ '')'') [0..<length prog]))
              @ ''echo '' @ [CHR 0x22]
              @ concat (map (\<lambda>i. ''$t'' @ str (int i) @ [CHR 0x0A]) [0..<length prog])
              @ [CHR 0x22] @ '' > '' @ dir @ ''/job_identifiers'')"
    by (simp add: fs' map_of_write_file lines jobs script_start_def write_lines_def nl_def dq_def)
  have tasks: "distinct (map address (nodes wflow)) \<longrightarrow>
         (\<forall>fs0. \<exists>fs1. generate_task_files E wflow dir fs0 = Inr fs1
            \<and> (\<forall>i<length prog. prog ! i \<in> set (nodes wflow) \<longrightarrow>
                 (\<exists>lines. task_file_lines E dir (prog ! i) = Inr lines
                    \<and> map_of (files fs1) (dir @ ''/'' @ node_task_filename (prog ! i)) =
                        Some (concat (map (\<lambda>line. line @ [CHR 0x0A]) lines)))))"
  proof (intro impI allI)
    fix fs0 assume d: "distinct (map address (nodes wflow))"
    from generate_task_files_loop_Inr obtain fs1 where
      fs1: "generate_task_files_loop E dir (nodes wflow) fs0 = Inr fs1" by blast
    have "\<forall>i<length prog. prog ! i \<in> set (nodes wflow) \<longrightarrow>
                 (\<exists>lines. task_file_lines E dir (prog ! i) = Inr lines
                    \<and> map_of (files fs1) (dir @ ''/'' @ node_task_filename (prog ! i)) =
                        Some (concat (map (\<lambda>line. line @ [CHR 0x0A]) lines)))"
    proof (intro allI impI)
      fix i assume "i < length prog" and mem: "prog ! i \<in> set (nodes wflow)"
      obtain ls where ls: "task_file_lines E dir (prog ! i) = Inr ls"
        using task_file_lines_Inr by blast
      from generate_task_files_loop_written[OF fs1 d mem ls] ls
      show "\<exists>lines. task_file_lines E dir (prog ! i) = Inr lines
                    \<and> map_of (files fs1) (dir @ ''/'' @ node_task_filename (prog ! i)) =
                        Some (concat (map (\<lambda>line. line @ [CHR 0x0A]) lines))"
        by (simp add: write_lines_def nl_def)
    qed
    with fs1 show "\<exists>fs1. generate_task_files E wflow dir fs0 = Inr fs1
            \<and> (\<forall>i<length prog. prog ! i \<in> set (nodes wflow) \<longrightarrow>
                 (\<exists>lines. task_file_lines E dir (prog ! i) = Inr lines
                    \<and> map_of (files fs1) (dir @ ''/'' @ node_task_filename (prog ! i)) =
                        Some (concat (map (\<lambda>line. line @ [CHR 0x0A]) lines))))"
      by (simp add: generate_task_files_def)
  qed
  from len good content tasks show ?thesis by blast
qed

text \<open>
  The theorem at the example: the text of the script of \<open>A\<close>, \<open>B\<close> and \<open>C\<close>, and
  the text of the task file of \<open>C\<close> under the name in the last \<open>sbatch\<close> line.
\<close>

theorem submission_script_text_witness:
  "program idle abc = Inr [node_A, node_B, node_C]
   \<and> generate_submission_script idle abc ''/w'' empty_disk =
       Inr \<lparr>files = [(''/w/pipeline'',
                ''#!/usr/bin/env bash'' @ [CHR 0x0A]
              @ ''mkdir -p /w/logs'' @ [CHR 0x0A]
              @ ''t0=$(sbatch /w/501.sbatch)'' @ [CHR 0x0A]
              @ ''t1=$(sbatch --dependency=afterok:$t0 /w/502.sbatch)'' @ [CHR 0x0A]
              @ ''t2=$(sbatch --dependency=afterok:$t0:$t1 /w/503.sbatch)'' @ [CHR 0x0A]
              @ ''echo '' @ [CHR 0x22] @ ''$t0'' @ [CHR 0x0A] @ ''$t1'' @ [CHR 0x0A]
              @ ''$t2'' @ [CHR 0x0A] @ [CHR 0x22] @ '' > /w/job_identifiers'')],
            dirs = []\<rparr>
   \<and> distinct (map address (nodes abc))
   \<and> (\<exists>fs1. generate_task_files idle abc ''/w'' empty_disk = Inr fs1
        \<and> map_of (files fs1) ''/w/503.sbatch'' =
            Some (''#!/usr/bin/env bash'' @ [CHR 0x0A]
                @ ''#SBATCH --array 0-2'' @ [CHR 0x0A]
                @ ''python -u -m awflow.bin.processor /w/503.code $SLURM_ARRAY_TASK_ID''
                @ [CHR 0x0A]))"
proof -
  have prog: "program idle abc = Inr [node_A, node_B, node_C]"
    by (simp add: idle_def abc_def)
  have numbers: "str 0 = ''0''" "str 1 = ''1''" "str 2 = ''2''"
    "str 501 = ''501''" "str 502 = ''502''" "str 503 = ''503''"
    by (simp_all add: str_def str_nat.simps digit_char_def)
  have run: "generate_submission_script idle abc ''/w'' empty_disk =
       Inr \<lparr>files = [(''/w/pipeline'',
                ''#!/usr/bin/env bash'' @ [CHR 0x0A]
              @ ''mkdir -p /w/logs'' @ [CHR 0x0A]
              @ ''t0=$(sbatch /w/501.sbatch)'' @ [CHR 0x0A]
              @ ''t1=$(sbatch --dependency=afterok:$t0 /w/502.sbatch)'' @ [CHR 0x0A]
              @ ''t2=$(sbatch --dependency=afterok:$t0:$t1 /w/503.sbatch)'' @ [CHR 0x0A]
              @ ''echo '' @ [CHR 0x22] @ ''$t0'' @ [CHR 0x0A] @ ''$t1'' @ [CHR 0x0A]
              @ ''$t2'' @ [CHR 0x0A] @ [CHR 0x22] @ '' > /w/job_identifiers'')],
            dirs = []\<rparr>"
    by (simp add: generate_submission_script_def prog script_start_def Let_def
        node_A_def node_B_def node_C_def node_task_filename_def numbers
        write_lines_def write_file_def empty_disk_def nl_def dq_def)
  have d: "distinct (map address (nodes abc))"
    by (simp add: abc_def node_A_def node_B_def node_C_def)
  have mem: "[node_A, node_B, node_C] ! 2 \<in> set (nodes abc)" by (simp add: abc_def)
  have linesC: "task_file_lines idle ''/w'' node_C =
      Inr [''#!/usr/bin/env bash'', ''#SBATCH --array 0-2'',
           ''python -u -m awflow.bin.processor /w/503.code $SLURM_ARRAY_TASK_ID'']"
    by (simp add: task_file_lines_eq idle_def node_C_def numbers)
  have nameC: "node_task_filename node_C = ''503.sbatch''"
    by (simp add: node_task_filename_def node_C_def numbers)
  from submission_script_text [OF prog run] d obtain fs1 where
    f1: "generate_task_files idle abc ''/w'' empty_disk = Inr fs1"
    and f2: "\<forall>i<length [node_A, node_B, node_C]. [node_A, node_B, node_C] ! i \<in> set (nodes abc) \<longrightarrow>
                 (\<exists>lines. task_file_lines idle ''/w'' ([node_A, node_B, node_C] ! i) = Inr lines
                    \<and> map_of (files fs1) (''/w'' @ ''/'' @ node_task_filename ([node_A, node_B, node_C] ! i)) =
                        Some (concat (map (\<lambda>line. line @ [CHR 0x0A]) lines)))"
    by blast
  have "2 < length [node_A, node_B, node_C]" by simp
  with f2 mem obtain lines where
    "task_file_lines idle ''/w'' ([node_A, node_B, node_C] ! 2) = Inr lines"
    and "map_of (files fs1) (''/w'' @ ''/'' @ node_task_filename ([node_A, node_B, node_C] ! 2)) =
                        Some (concat (map (\<lambda>line. line @ [CHR 0x0A]) lines))" by blast
  then have "map_of (files fs1) ''/w/503.sbatch'' =
            Some (''#!/usr/bin/env bash'' @ [CHR 0x0A]
                @ ''#SBATCH --array 0-2'' @ [CHR 0x0A]
                @ ''python -u -m awflow.bin.processor /w/503.code $SLURM_ARRAY_TASK_ID''
                @ [CHR 0x0A])"
    by (auto simp: linesC nameC)
  with prog run d f1 show ?thesis by blast
qed

text \<open>
  Claim C6 says that the task file of a node holds the directive
  \<open>#SBATCH --array 0-(tasks-1)\<close> if and only if \<open>node.tasks > 1\<close>. The node
  \<open>array_named\<close> has one task and an attribute with the key \<open>--array 0-\<close> and the value
  \<open>0\<close>: the loop over the attributes writes for it the line \<open>#SBATCH --array 0-0\<close>,
  which is the directive of a node with one task.
\<close>

theorem array_line_without_array_task:
  "tasks array_named = 1
   \<and> ''#SBATCH --array 0-'' @ str (tasks array_named - 1) = ''#SBATCH --array 0-0''
   \<and> generate_task_files idle \<lparr>nodes = [array_named]\<rparr> ''/w'' empty_disk =
       Inr \<lparr>files = [(''/w/601.sbatch'',
                ''#!/usr/bin/env bash'' @ [CHR 0x0A]
              @ ''#SBATCH --array 0-0'' @ [CHR 0x0A]
              @ ''python -u -m awflow.bin.processor /w/601.code'' @ [CHR 0x0A])],
            dirs = []\<rparr>"
proof -
  have numbers: "str 0 = ''0''" "str 601 = ''601''"
    by (simp_all add: str_def str_nat.simps digit_char_def)
  show ?thesis
    by (simp add: generate_task_files_def task_file_lines_def getitem_def Let_def
        array_named_def idle_def node_task_filename_def numbers write_lines_def write_file_def
        empty_disk_def nl_def)
qed

text \<open>
  Claim C6, amended. \<open>generate_task_files\<close> always returns, and the task file of a
  node of the workflow (the addresses of the Node objects being distinct) holds exactly
  these lines, each ended by a newline: the first line; one \<open>#SBATCH\<close> line for each
  attribute key that starts with \<open>--\<close>; then the directive
  \<open>#SBATCH --array 0-(tasks-1)\<close> if \<open>node.tasks > 1\<close>, and no line otherwise; then the
  commands of the hooks around the processor command, which has the suffix
  \<open>$SLURM_ARRAY_TASK_ID\<close> if \<open>node.tasks > 1\<close>, and no suffix otherwise. When no
  attribute and no hook of the node gives a line with the text of the directive, the
  file holds the directive if and only if \<open>node.tasks > 1\<close>.
\<close>

theorem task_file_array_step:
  assumes distinct: "distinct (map address (nodes wflow))"
    and node: "node \<in> set (nodes wflow)"
  shows "\<exists>fs' lines.
      generate_task_files E wflow dir fs = Inr fs'
    \<and> map_of (files fs') (dir @ ''/'' @ node_task_filename node) =
        Some (concat (map (\<lambda>line. line @ [CHR 0x0A]) lines))
    \<and> lines =
        ''#!/usr/bin/env bash''
        # map (\<lambda>key. ''#SBATCH '' @ key @ the (map_of (attributes node) key))
              (filter (\<lambda>key. take 2 key = ''--'') (map fst (attributes node)))
        @ (if tasks node > 1 then [''#SBATCH --array 0-'' @ str (tasks node - 1)] else [])
        @ generate_before E node
        @ [''python -u -m awflow.bin.processor ''
             @ abspath E (dir @ ''/'' @ executable_name E node)
             @ (if tasks node > 1 then '' $SLURM_ARRAY_TASK_ID'' else '''')]
        @ generate_after E node
    \<and> ((\<forall>key\<in>set (map fst (attributes node)). take 2 key = ''--'' \<longrightarrow>
            key @ the (map_of (attributes node) key) \<noteq> ''--array 0-'' @ str (tasks node - 1))
        \<and> ''#SBATCH --array 0-'' @ str (tasks node - 1)
            \<notin> set (generate_before E node) \<union> set (generate_after E node)
        \<longrightarrow> (''#SBATCH --array 0-'' @ str (tasks node - 1) \<in> set lines \<longleftrightarrow> tasks node > 1))"
proof -
  from generate_task_files_loop_Inr obtain fs' where
    run: "generate_task_files_loop E dir (nodes wflow) fs = Inr fs'" by blast
  let ?directive = "''#SBATCH --array 0-'' @ str (tasks node - 1)"
  let ?attrs = "map (\<lambda>key. ''#SBATCH '' @ key @ the (map_of (attributes node) key))
              (filter (\<lambda>key. take 2 key = ''--'') (map fst (attributes node)))"
  let ?command = "''python -u -m awflow.bin.processor ''
             @ abspath E (dir @ ''/'' @ executable_name E node)
             @ (if tasks node > 1 then '' $SLURM_ARRAY_TASK_ID'' else '''')"
  let ?lines = "''#!/usr/bin/env bash'' # ?attrs
        @ (if tasks node > 1 then [?directive] else [])
        @ generate_before E node @ [?command] @ generate_after E node"
  have lines: "task_file_lines E dir node = Inr ?lines"
    using task_file_lines_eq[of E dir node] by simp
  from generate_task_files_loop_written[OF run distinct node lines]
  have content: "map_of (files fs') (dir @ ''/'' @ node_task_filename node) =
        Some (concat (map (\<lambda>line. line @ [CHR 0x0A]) ?lines))"
    by (simp add: write_lines_def nl_def)
  have only: "(\<forall>key\<in>set (map fst (attributes node)). take 2 key = ''--'' \<longrightarrow>
            key @ the (map_of (attributes node) key) \<noteq> ''--array 0-'' @ str (tasks node - 1))
        \<and> ?directive \<notin> set (generate_before E node) \<union> set (generate_after E node)
        \<longrightarrow> (?directive \<in> set ?lines \<longleftrightarrow> tasks node > 1)"
  proof
    assume side: "(\<forall>key\<in>set (map fst (attributes node)). take 2 key = ''--'' \<longrightarrow>
            key @ the (map_of (attributes node) key) \<noteq> ''--array 0-'' @ str (tasks node - 1))
        \<and> ?directive \<notin> set (generate_before E node) \<union> set (generate_after E node)"
    have a: "?directive \<notin> set ?attrs" using side by auto
    have b: "?directive \<noteq> ?command" by simp
    have c: "?directive \<noteq> ''#!/usr/bin/env bash''" by simp
    from a b c side show "?directive \<in> set ?lines \<longleftrightarrow> tasks node > 1" by auto
  qed
  from run content only show ?thesis
    unfolding generate_task_files_def by blast
qed

text \<open>
  The theorem at the example: the text of the task files of the array task \<open>C\<close> with
  three tasks and of \<open>A\<close> with one.
\<close>

theorem task_file_array_step_witness:
  "distinct (map address (nodes abc)) \<and> node_C \<in> set (nodes abc) \<and> node_A \<in> set (nodes abc)
   \<and> tasks node_C = 3 \<and> tasks node_A = 1
   \<and> (\<exists>fs'. generate_task_files idle abc ''/w'' empty_disk = Inr fs'
        \<and> map_of (files fs') ''/w/503.sbatch'' =
            Some (''#!/usr/bin/env bash'' @ [CHR 0x0A]
                @ ''#SBATCH --array 0-2'' @ [CHR 0x0A]
                @ ''python -u -m awflow.bin.processor /w/503.code $SLURM_ARRAY_TASK_ID''
                @ [CHR 0x0A])
        \<and> map_of (files fs') ''/w/501.sbatch'' =
            Some (''#!/usr/bin/env bash'' @ [CHR 0x0A]
                @ ''python -u -m awflow.bin.processor /w/501.code'' @ [CHR 0x0A]))"
proof -
  have d: "distinct (map address (nodes abc))"
    by (simp add: abc_def node_A_def node_B_def node_C_def)
  have c: "node_C \<in> set (nodes abc)" and a: "node_A \<in> set (nodes abc)"
    by (simp_all add: abc_def)
  have tasks: "tasks node_C = 3" "tasks node_A = 1" by (simp_all add: node_C_def node_A_def)
  have attrs: "attributes node_C = []" "attributes node_A = []"
    by (simp_all add: node_C_def node_A_def)
  have numbers: "str 2 = ''2''" "str 501 = ''501''" "str 503 = ''503''"
    by (simp_all add: str_def str_nat.simps digit_char_def)
  have names: "node_task_filename node_C = ''503.sbatch''" "node_task_filename node_A = ''501.sbatch''"
    by (simp_all add: node_task_filename_def node_C_def node_A_def numbers)
  have code: "executable_name idle node_C = ''503.code''" "executable_name idle node_A = ''501.code''"
    by (simp_all add: idle_def node_C_def node_A_def numbers)
  have hooks: "generate_before idle = (\<lambda>n. [])" "generate_after idle = (\<lambda>n. [])"
    "abspath idle = (\<lambda>p. p)" by (simp_all add: idle_def)
  from task_file_array_step [OF d c, of idle "''/w''" empty_disk] obtain fs' where
    run: "generate_task_files idle abc ''/w'' empty_disk = Inr fs'"
    and fc: "map_of (files fs') ''/w/503.sbatch'' =
            Some (''#!/usr/bin/env bash'' @ [CHR 0x0A]
                @ ''#SBATCH --array 0-2'' @ [CHR 0x0A]
                @ ''python -u -m awflow.bin.processor /w/503.code $SLURM_ARRAY_TASK_ID''
                @ [CHR 0x0A])"
    by (auto simp: tasks attrs names code numbers hooks)
  from task_file_array_step [OF d a, of idle "''/w''" empty_disk] run
  have fa: "map_of (files fs') ''/w/501.sbatch'' =
            Some (''#!/usr/bin/env bash'' @ [CHR 0x0A]
                @ ''python -u -m awflow.bin.processor /w/501.code'' @ [CHR 0x0A])"
    by (auto simp: tasks attrs names code hooks)
  from d c a tasks run fc fa show ?thesis by blast
qed

lemma filter_update_unprefixed:
  "take 2 k \<noteq> ''--'' \<Longrightarrow>
   filter (\<lambda>(key, v). take 2 key = ''--'') (AList.update k x al)
     = filter (\<lambda>(key, v). take 2 key = ''--'') al"
  by (induction al) auto

text \<open>
  Claim C7. \<open>generate_task_files\<close> always returns, and for a node of the workflow
  whose attribute keys are distinct, as the keys of a dictionary are (the addresses of the
  Node objects being distinct), the task file it writes holds after its first line one
  line \<open>#SBATCH key value\<close> for each attribute whose key starts with \<open>--\<close>, and for
  no other attribute, in the insertion order of the attributes; the lines that follow are
  the array directive, if any, and the commands. The decorator \<open>conda\<close> returns \<open>f\<close>
  and stores the environment under the key \<open>conda\<close> on the Node of \<open>f\<close>, which is a
  node of the graph; the attributes of that Node whose key starts with \<open>--\<close>, which
  are the ones written to its task file, are those it had before.
\<close>

theorem sbatch_lines_in_task_file:
  assumes addresses: "distinct (map address (nodes wflow))"
    and node: "node \<in> set (nodes wflow)"
    and keys: "distinct (map fst (attributes node))"
  shows "(\<exists>fs'. generate_task_files E wflow dir fs = Inr fs'
      \<and> map_of (files fs') (dir @ ''/'' @ node_task_filename node) =
          Some (concat (map (\<lambda>line. line @ [CHR 0x0A])
            (''#!/usr/bin/env bash''
             # map (\<lambda>(key, v). ''#SBATCH '' @ key @ v)
                   (filter (\<lambda>(key, v). take 2 key = ''--'') (attributes node))
             @ (if tasks node > 1 then [''#SBATCH --array 0-'' @ str (tasks node - 1)] else [])
             @ generate_before E node
             @ [''python -u -m awflow.bin.processor ''
                  @ abspath E (dir @ ''/'' @ executable_name E node)
                  @ (if tasks node > 1 then '' $SLURM_ARRAY_TASK_ID'' else '''')]
             @ generate_after E node))))
   \<and> fst (conda f environment g) = f
   \<and> (\<exists>n'. find_node (fn_id f) (snd (conda f environment g)) = Some n'
          \<and> n' \<in> set (nodes (snd (conda f environment g)))
          \<and> n' = setitem (fst (add_and_get_node f g)) ''conda'' environment
          \<and> getitem n' ''conda'' = Inr environment
          \<and> (''conda'', environment) \<in> set (attributes n')
          \<and> filter (\<lambda>(key, v). take 2 key = ''--'') (attributes n')
              = filter (\<lambda>(key, v). take 2 key = ''--'') (attributes (fst (add_and_get_node f g))))"
proof -
  from generate_task_files_loop_Inr obtain fs' where
    run: "generate_task_files_loop E dir (nodes wflow) fs = Inr fs'" by blast
  have "map (\<lambda>key. ''#SBATCH '' @ key @ the (map_of (attributes node) key))
                (filter (\<lambda>key. take 2 key = ''--'') (map fst (attributes node)))
     = map (\<lambda>(key, v). ''#SBATCH '' @ key @ v)
                (filter (\<lambda>(key, v). take 2 key = ''--'') (attributes node))"
    using map_of_distinct_keys[OF keys, of "\<lambda>k v. ''#SBATCH '' @ k @ v" "\<lambda>key. take 2 key = ''--''"]
    by simp
  then have lines: "task_file_lines E dir node =
     Inr (''#!/usr/bin/env bash''
          # map (\<lambda>(key, v). ''#SBATCH '' @ key @ v)
                (filter (\<lambda>(key, v). take 2 key = ''--'') (attributes node))
          @ (if tasks node > 1 then [''#SBATCH --array 0-'' @ str (tasks node - 1)] else [])
          @ generate_before E node
          @ [''python -u -m awflow.bin.processor ''
               @ abspath E (dir @ ''/'' @ executable_name E node)
               @ (if tasks node > 1 then '' $SLURM_ARRAY_TASK_ID'' else '''')]
          @ generate_after E node)"
    using task_file_lines_eq[of E dir node] by simp
  from generate_task_files_loop_written[OF run addresses node lines] run
  have a: "\<exists>fs'. generate_task_files E wflow dir fs = Inr fs'
      \<and> map_of (files fs') (dir @ ''/'' @ node_task_filename node) =
          Some (concat (map (\<lambda>line. line @ [CHR 0x0A])
            (''#!/usr/bin/env bash''
             # map (\<lambda>(key, v). ''#SBATCH '' @ key @ v)
                   (filter (\<lambda>(key, v). take 2 key = ''--'') (attributes node))
             @ (if tasks node > 1 then [''#SBATCH --array 0-'' @ str (tasks node - 1)] else [])
             @ generate_before E node
             @ [''python -u -m awflow.bin.processor ''
                  @ abspath E (dir @ ''/'' @ executable_name E node)
                  @ (if tasks node > 1 then '' $SLURM_ARRAY_TASK_ID'' else '''')]
             @ generate_after E node)))"
    by (simp add: generate_task_files_def write_lines_def nl_def)
  let ?n0 = "fst (add_and_get_node f g)"
  let ?n' = "setitem ?n0 ''conda'' environment"
  from conda_node[of f environment g] have ret: "fst (conda f environment g) = f"
    and found: "find_node (fn_id f) (snd (conda f environment g)) = Some ?n'" by simp_all
  from find_node_Some[OF found] have mem: "?n' \<in> set (nodes (snd (conda f environment g)))"
    by simp
  have stored: "getitem ?n' ''conda'' = Inr environment" by (rule getitem_setitem_same)
  have "map_of (attributes ?n') ''conda'' = Some environment"
    by (simp add: setitem_def AList.update_conv')
  then have pair: "(''conda'', environment) \<in> set (attributes ?n')" by (rule map_of_SomeD)
  have same: "filter (\<lambda>(key, v). take 2 key = ''--'') (attributes ?n')
              = filter (\<lambda>(key, v). take 2 key = ''--'') (attributes ?n0)"
    by (simp add: setitem_def filter_update_unprefixed)
  from a ret found mem stored pair same show ?thesis by blast
qed

text \<open>
  The theorem at the graph that \<open>conda\<close> leaves for the task \<open>a\<close> registered with a
  partition: the text of its task file has the line of the partition and none of the
  environment.
\<close>

theorem sbatch_lines_in_task_file_witness:
  "nodes (snd (conda task_a ''ml'' partitioned)) =
     [\<lparr>address = 701, node_identifier = 11, name = ''a'',
        attributes = [(''--partition='', ''gpu''), (''conda'', ''ml'')],
        tasks = 1, dependencies = []\<rparr>]
   \<and> generate_task_files idle (snd (conda task_a ''ml'' partitioned)) ''/w'' empty_disk =
       Inr \<lparr>files = [(''/w/701.sbatch'',
                ''#!/usr/bin/env bash'' @ [CHR 0x0A]
              @ ''#SBATCH --partition=gpu'' @ [CHR 0x0A]
              @ ''python -u -m awflow.bin.processor /w/701.code'' @ [CHR 0x0A])],
            dirs = []\<rparr>
   \<and> (\<exists>n'. find_node (fn_id task_a) (snd (conda task_a ''ml'' partitioned)) = Some n'
          \<and> getitem n' ''conda'' = Inr ''ml'')"
proof -
  let ?n = "\<lparr>address = 701, node_identifier = 11, name = ''a'',
        attributes = [(''--partition='', ''gpu''), (''conda'', ''ml'')],
        tasks = 1, dependencies = []\<rparr>"
  let ?g = "snd (conda task_a ''ml'' partitioned)"
  have g: "nodes ?g = [?n]"
    by (simp add: conda_def add_and_get_node_def find_node_def update_node_def setitem_def
        partitioned_def task_a_def)
  have addresses: "distinct (map address (nodes ?g))" by (simp add: g)
  have node: "?n \<in> set (nodes ?g)" by (simp add: g)
  have keys: "distinct (map fst (attributes ?n))" by simp
  have numbers: "str 701 = ''701''" by (simp add: str_def str_nat.simps digit_char_def)
  have name: "node_task_filename ?n = ''701.sbatch''"
    by (simp add: node_task_filename_def numbers)
  have hooks: "generate_before idle = (\<lambda>n. [])" "generate_after idle = (\<lambda>n. [])"
    "abspath idle = (\<lambda>p. p)" "executable_name idle ?n = ''701.code''"
    by (simp_all add: idle_def numbers)
  have run: "generate_task_files idle ?g ''/w'' empty_disk =
       Inr \<lparr>files = [(''/w/701.sbatch'',
                ''#!/usr/bin/env bash'' @ [CHR 0x0A]
              @ ''#SBATCH --partition=gpu'' @ [CHR 0x0A]
              @ ''python -u -m awflow.bin.processor /w/701.code'' @ [CHR 0x0A])],
            dirs = []\<rparr>"
    by (simp add: generate_task_files_def g task_file_lines_eq name hooks write_lines_def
        write_file_def empty_disk_def nl_def)
  note inst = sbatch_lines_in_task_file [OF addresses node keys,
      of idle "''/w''" empty_disk task_a "''ml''" partitioned]
  from inst obtain n' where
    "find_node (fn_id task_a) ?g = Some n'" and "getitem n' ''conda'' = Inr ''ml''" by blast
  with g run show ?thesis by blast
qed

end
